theory Spec2Isabelle
  imports Main "HOL-Library.Sublist" "HOL-Library.AList" "HOL-Library.Multiset"
begin

section \<open>Strings and decimal formatting\<close>

text \<open>
  Go strings are byte sequences; they are modelled as \<open>string\<close> (a list of 8-bit
  characters). \<open>ReplaceAll s old new\<close> is \<^verbatim>\<open>strings.ReplaceAll(s, old, new)\<close>: the
  non-overlapping occurrences of \<open>old\<close> are replaced scanning from the left. For an
  empty \<open>old\<close> Go inserts \<open>new\<close> before every rune and at the end; the model does so
  per byte. The program never passes an empty \<open>old\<close> (each pattern ends in a dot).
\<close>

function ReplaceAll :: "string \<Rightarrow> string \<Rightarrow> string \<Rightarrow> string" where
  "ReplaceAll [] old new = (if old = [] then new else [])"
| "ReplaceAll (c # cs) old new =
     (if old = [] then new @ c # ReplaceAll cs old new
      else if prefix old (c # cs)
        then new @ ReplaceAll (drop (length old) (c # cs)) old new
        else c # ReplaceAll cs old new)"
  by pat_completeness auto
termination
  by (relation "measure (\<lambda>(s, old, new). length s)") auto

text \<open>
  \<^verbatim>\<open>strconv.Itoa\<close> and the \<^verbatim>\<open>%d\<close> verb of \<^verbatim>\<open>fmt.Sprintf\<close>: the decimal digits
  of the number, after a minus sign when it is negative. Go's \<^verbatim>\<open>int\<close> is modelled
  as \<open>int\<close>: the numbers formatted here are a counter bounded by the size of a map and
  line numbers of a file, so no arithmetic of the program can overflow.
\<close>

definition digitChar :: "nat \<Rightarrow> char" where
  "digitChar d = ''0123456789'' ! (d mod 10)"

fun digits :: "nat \<Rightarrow> string" where
  "digits n = (if n < 10 then [digitChar n] else digits (n div 10) @ [digitChar (n mod 10)])"

declare digits.simps [simp del]

definition Itoa :: "int \<Rightarrow> string" where
  "Itoa i = (if i < 0 then CHR ''-'' # digits (nat (- i)) else digits (nat i))"

section \<open>Go maps and their iteration order\<close>

text \<open>
  A \<^verbatim>\<open>map[string]string\<close> is an association list with distinct keys, written with
  \<open>AList.update\<close>; reading a missing key gives the empty string, as in Go.

  The order in which \<^verbatim>\<open>range\<close> visits a map is not specified by Go, and
  \<^verbatim>\<open>sort.Slice\<close> is not stable. Both choices are made by a \<open>scheduler\<close>, one
  function for each loop and each sort of \<^verbatim>\<open>applyQualifierReplacements\<close>. A
  scheduler is valid when each range function returns a permutation of the map's entries
  and each sort function returns a permutation of its input in which no later element is
  longer than an earlier one (the \<^verbatim>\<open>less\<close> function of both sorts is
  \<^verbatim>\<open>len(a) > len(b)\<close>).
\<close>

type_synonym gomap = "(string \<times> string) list"

definition mapGet :: "gomap \<Rightarrow> string \<Rightarrow> string" where
  "mapGet m k = (case map_of m k of None \<Rightarrow> [] | Some v \<Rightarrow> v)"

record scheduler =
  rangeReplacements :: "gomap \<Rightarrow> gomap"
  rangeTempMap :: "gomap \<Rightarrow> gomap"
  sortQualifiers :: "string list \<Rightarrow> string list"
  rangeFinalMap :: "gomap \<Rightarrow> gomap"
  sortPlaceholders :: "string list \<Rightarrow> string list"

definition lenDesc :: "string list \<Rightarrow> bool" where
  "lenDesc xs = sorted_wrt (\<lambda>a b. length b \<le> length a) xs"

definition validRange :: "(gomap \<Rightarrow> gomap) \<Rightarrow> bool" where
  "validRange f = (\<forall>m. mset (f m) = mset m)"

definition validSort :: "(string list \<Rightarrow> string list) \<Rightarrow> bool" where
  "validSort f = (\<forall>xs. mset (f xs) = mset xs \<and> lenDesc (f xs))"

definition validScheduler :: "scheduler \<Rightarrow> bool" where
  "validScheduler sch =
     (validRange (rangeReplacements sch) \<and> validRange (rangeTempMap sch) \<and>
      validSort (sortQualifiers sch) \<and> validRange (rangeFinalMap sch) \<and>
      validSort (sortPlaceholders sch))"

text \<open>Two concrete schedulers: insertion order with a stable sort, and the reverse.\<close>

definition sortByLenDesc :: "string list \<Rightarrow> string list" where
  "sortByLenDesc xs = rev (sort_key length xs)"

definition fifoScheduler :: scheduler where
  "fifoScheduler = \<lparr> rangeReplacements = id, rangeTempMap = id,
     sortQualifiers = sortByLenDesc, rangeFinalMap = id, sortPlaceholders = sortByLenDesc \<rparr>"

definition lifoScheduler :: scheduler where
  "lifoScheduler = \<lparr> rangeReplacements = rev, rangeTempMap = rev,
     sortQualifiers = sortByLenDesc \<circ> rev, rangeFinalMap = rev,
     sortPlaceholders = sortByLenDesc \<circ> rev \<rparr>"

section \<open>The two-pass replacement of applyQualifierReplacements\<close>

definition placeholderPrefix :: string where
  "placeholderPrefix = ''__GO_QUALIFIER_TEMP_''"

definition placeholder :: "int \<Rightarrow> string" where
  "placeholder i = placeholderPrefix @ Itoa i @ ''__''"

text \<open>
  The loop of allsymbols.go, lines 294-301: the entries of \<open>replacements\<close> in iteration
  order, the counter \<open>i\<close>, and the two maps under construction.
\<close>

fun assignPlaceholders :: "gomap \<Rightarrow> int \<Rightarrow> gomap \<times> gomap \<Rightarrow> gomap \<times> gomap" where
  "assignPlaceholders [] i (tempMap, finalMap) = (tempMap, finalMap)"
| "assignPlaceholders ((oldQualifier, fullPath) # rest) i (tempMap, finalMap) =
     assignPlaceholders rest (i + 1)
       (AList.update oldQualifier (placeholder i) tempMap,
        AList.update (placeholder i) fullPath finalMap)"

text \<open>One pass (lines 315-320 and 334-338): each key in turn, \<open>key.\<close> replaced by \<open>value.\<close>.\<close>

definition replacePass :: "gomap \<Rightarrow> string list \<Rightarrow> string \<Rightarrow> string" where
  "replacePass m keys chunkCode =
     foldl (\<lambda>code k. ReplaceAll code (k @ ''.'') (mapGet m k @ ''.'')) chunkCode keys"

text \<open>Lines 287-340 of allsymbols.go, for a non-empty \<open>replacements\<close> map.\<close>

definition twoPassReplace :: "scheduler \<Rightarrow> gomap \<Rightarrow> string \<Rightarrow> string" where
  "twoPassReplace sch replacements chunkCode =
     (let (tempMap, finalMap) = assignPlaceholders (rangeReplacements sch replacements) 0 ([], []);
          sortedOldQualifiers = sortQualifiers sch (map fst (rangeTempMap sch tempMap));
          chunkCode1 = replacePass tempMap sortedOldQualifiers chunkCode;
          sortedPlaceholders = sortPlaceholders sch (map fst (rangeFinalMap sch finalMap))
      in replacePass finalMap sortedPlaceholders chunkCode1)"

text \<open>
  The single pass of go\_ast\_parser.go, lines 143-154: the aliases sorted by descending
  length, each \<open>alias.\<close> replaced by \<open>path.\<close> directly.
\<close>

definition singlePassReplace :: "scheduler \<Rightarrow> gomap \<Rightarrow> string \<Rightarrow> string" where
  "singlePassReplace sch replacements chunkCode =
     replacePass replacements
       (sortQualifiers sch (map fst (rangeReplacements sch replacements))) chunkCode"

section \<open>Syntax trees and resolved symbols\<close>

text \<open>
  The part of \<^verbatim>\<open>go/ast\<close> the program looks at. \<open>NilNode\<close> is a nil node (a slice
  type has a nil \<^verbatim>\<open>Len\<close>, a value spec without a type has a nil \<^verbatim>\<open>Type\<close>).
  An identifier carries its name and a number standing for the identity of the
  \<^verbatim>\<open>*ast.Ident\<close>, the key of \<^verbatim>\<open>info.Uses\<close>. A field list that is nil is the
  empty list, and so is a field's nil \<^verbatim>\<open>Names\<close>: the program treats them alike.
  A function type carries its type parameters, its parameters and its results. A basic
  literal carries its text and, like an identifier, a number standing for the identity of
  the node: the type the checker records for a literal depends on where it stands.
  Every node kind the program does not single out is an \<open>OtherNode\<close> with the name
  \<^verbatim>\<open>%T\<close> prints for it and its children in source order.
\<close>

datatype chanDir = SEND | RECV | SENDRECV

datatype node =
    NilNode
  | Ident string nat
  | StarExpr node
  | ArrayType node node
  | MapType node node
  | SelectorExpr node string
  | InterfaceType "field list"
  | ChanType chanDir node
  | Ellipsis node
  | FuncType "field list" "field list" "field list"
  | StructType "field list"
  | FieldList "field list"
  | BasicLit string nat
  | OtherNode string "node list"
and field = Field (fieldNames: "string list") (fieldType: node)

datatype object = PkgName string | OtherObject

text \<open>
  \<^verbatim>\<open>types.Info\<close>: \<open>Uses\<close> maps an identifier to the object it denotes (a
  \<open>PkgName\<close> carries \<^verbatim>\<open>Imported().Path()\<close>); \<open>TypeOf\<close> is \<^verbatim>\<open>info.TypeOf\<close>
  followed by \<^verbatim>\<open>String()\<close>, \<open>None\<close> when it returns nil.
\<close>

record info =
  Uses :: "nat \<Rightarrow> object option"
  TypeOf :: "node \<Rightarrow> string option"

text \<open>
  \<^verbatim>\<open>ast.Inspect\<close> with a callback that always returns true: the non-nil nodes of
  the subtree in depth-first order, a node before its children. The callback of the
  program acts on selector expressions only, so the identifiers that are no expressions of
  their own (the \<^verbatim>\<open>Sel\<close> of a selector, the names of a field) are not listed.
\<close>

fun Inspect :: "node \<Rightarrow> node list"
and InspectFields :: "field list \<Rightarrow> node list"
and InspectList :: "node list \<Rightarrow> node list" where
  "Inspect NilNode = []"
| "Inspect (Ident name i) = [Ident name i]"
| "Inspect (StarExpr x) = StarExpr x # Inspect x"
| "Inspect (ArrayType len elt) = ArrayType len elt # Inspect len @ Inspect elt"
| "Inspect (MapType k v) = MapType k v # Inspect k @ Inspect v"
| "Inspect (SelectorExpr x sel) = SelectorExpr x sel # Inspect x"
| "Inspect (InterfaceType methods) = InterfaceType methods # InspectFields methods"
| "Inspect (ChanType dir v) = ChanType dir v # Inspect v"
| "Inspect (Ellipsis elt) = Ellipsis elt # Inspect elt"
| "Inspect (FuncType tparams params results) =
     FuncType tparams params results
       # InspectFields tparams @ InspectFields params @ InspectFields results"
| "Inspect (StructType fs) = StructType fs # InspectFields fs"
| "Inspect (FieldList fs) = FieldList fs # InspectFields fs"
| "Inspect (BasicLit v i) = [BasicLit v i]"
| "Inspect (OtherNode tag children) = OtherNode tag children # InspectList children"
| "InspectFields [] = []"
| "InspectFields (Field names ty # fs) = Inspect ty @ InspectFields fs"
| "InspectList [] = []"
| "InspectList (n # ns) = Inspect n @ InspectList ns"

section \<open>applyQualifierReplacements\<close>

text \<open>
  The callback of lines 259-280: for a selector expression whose \<^verbatim>\<open>X\<close> is an
  identifier that \<open>Uses\<close> resolves to a package name with a path different from the
  identifier's name, \<^verbatim>\<open>replacements[ident.Name] = fullImportPath\<close>.
\<close>

definition visitNode :: "info \<Rightarrow> gomap \<Rightarrow> node \<Rightarrow> gomap" where
  "visitNode ti replacements innerNode =
     (case innerNode of
        SelectorExpr x sel \<Rightarrow>
          (case x of
             Ident name i \<Rightarrow>
               (case Uses ti i of
                  None \<Rightarrow> replacements
                | Some obj \<Rightarrow>
                    (case obj of
                       PkgName fullImportPath \<Rightarrow>
                         if name \<noteq> fullImportPath
                         then AList.update name fullImportPath replacements
                         else replacements
                     | OtherObject \<Rightarrow> replacements))
           | _ \<Rightarrow> replacements)
      | _ \<Rightarrow> replacements)"

definition collectReplacements :: "node \<Rightarrow> info \<Rightarrow> gomap" where
  "collectReplacements n ti = foldl (visitNode ti) [] (Inspect n)"

definition applyQualifierReplacements ::
  "scheduler \<Rightarrow> string \<Rightarrow> node \<Rightarrow> info option \<Rightarrow> string" where
  "applyQualifierReplacements sch chunkCode n info =
     (case info of
        None \<Rightarrow> chunkCode
      | Some ti \<Rightarrow>
          if n = NilNode then chunkCode
          else let replacements = collectReplacements n ti
               in if length replacements = 0 then chunkCode
                  else twoPassReplace sch replacements chunkCode)"

text \<open>
  The canonicalization inlined in go\_ast\_parser.go, lines 124-154: the same collection,
  then the single pass.
\<close>

definition applyQualifierReplacementsV1 ::
  "scheduler \<Rightarrow> string \<Rightarrow> node \<Rightarrow> info \<Rightarrow> string" where
  "applyQualifierReplacementsV1 sch chunkCode n ti =
     singlePassReplace sch (collectReplacements n ti) chunkCode"

section \<open>Concrete inputs\<close>

text \<open>
  A block with the two calls \<^verbatim>\<open>ab.Foo()\<close> and \<^verbatim>\<open>a.Bar()\<close>, where \<open>ab\<close> and
  \<open>a\<close> are the local names of the imports \<open>pkg/ab\<close> and \<open>pkg/a\<close>.
\<close>

definition twoAliasBlock :: node where
  "twoAliasBlock = OtherNode ''*ast.BlockStmt''
     [OtherNode ''*ast.ExprStmt'' [OtherNode ''*ast.CallExpr'' [SelectorExpr (Ident ''ab'' 1) ''Foo'']],
      OtherNode ''*ast.ExprStmt'' [OtherNode ''*ast.CallExpr'' [SelectorExpr (Ident ''a'' 2) ''Bar'']]]"

definition twoAliasInfo :: info where
  "twoAliasInfo = \<lparr> Uses = [1 \<mapsto> PkgName ''pkg/ab'', 2 \<mapsto> PkgName ''pkg/a''],
     TypeOf = (\<lambda>e. None) \<rparr>"

text \<open>
  The call \<^verbatim>\<open>x.Use(company.x.Other)\<close>: \<open>x\<close> is the local name of the import
  \<open>company/x\<close>, and \<open>company\<close> is a variable with a field \<open>x\<close>.
\<close>

definition xUseCall :: node where
  "xUseCall = OtherNode ''*ast.CallExpr''
     [SelectorExpr (Ident ''x'' 1) ''Use'',
      SelectorExpr (SelectorExpr (Ident ''company'' 2) ''x'') ''Other'']"

definition xUseInfo :: info where
  "xUseInfo = \<lparr> Uses = [1 \<mapsto> PkgName ''company/x'', 2 \<mapsto> OtherObject],
     TypeOf = (\<lambda>e. None) \<rparr>"

section \<open>Occurrences of alias and placeholder tokens in a text\<close>

text \<open>
  \<open>mentionsAlias m c\<close>: some key of the map \<open>m\<close>, followed by a dot, occurs in \<open>c\<close>.
  \<open>mentionsPlaceholder k c\<close>: one of the first \<open>k\<close> placeholders, followed by a dot,
  occurs in \<open>c\<close>.
\<close>

definition mentionsAlias :: "gomap \<Rightarrow> string \<Rightarrow> bool" where
  "mentionsAlias m c = list_ex (\<lambda>k. sublist (k @ ''.'') c) (map fst m)"

definition mentionsPlaceholder :: "nat \<Rightarrow> string \<Rightarrow> bool" where
  "mentionsPlaceholder k c = list_ex (\<lambda>i. sublist (placeholder (int i) @ ''.'') c) [0..<k]"

text \<open>
  The call \<^verbatim>\<open>http.Get(grpchttp.URL)\<close>: \<open>http\<close> is the local name of the import
  \<open>net/http\<close>, and \<open>grpchttp\<close> is a variable.
\<close>

definition httpGetCall :: node where
  "httpGetCall = OtherNode ''*ast.CallExpr''
     [SelectorExpr (Ident ''http'' 1) ''Get'', SelectorExpr (Ident ''grpchttp'' 2) ''URL'']"

definition httpGetInfo :: info where
  "httpGetInfo = \<lparr> Uses = [1 \<mapsto> PkgName ''net/http'', 2 \<mapsto> OtherObject],
     TypeOf = (\<lambda>e. None) \<rparr>"

text \<open>The call \<^verbatim>\<open>h.Get(u)\<close>, where \<open>h\<close> is the local name of the import \<open>net/http\<close>.\<close>

definition hGetCall :: node where
  "hGetCall = OtherNode ''*ast.CallExpr'' [SelectorExpr (Ident ''h'' 1) ''Get'', Ident ''u'' 2]"

definition hGetInfo :: info where
  "hGetInfo = \<lparr> Uses = [1 \<mapsto> PkgName ''net/http'', 2 \<mapsto> OtherObject],
     TypeOf = (\<lambda>e. None) \<rparr>"

text \<open>The call \<^verbatim>\<open>http.Get(u)\<close>, where \<open>http\<close> is the local name of the import \<open>net/http\<close>.\<close>

definition httpCall :: node where
  "httpCall = OtherNode ''*ast.CallExpr'' [SelectorExpr (Ident ''http'' 1) ''Get'', Ident ''u'' 2]"

section \<open>Rendering types and signatures\<close>

text \<open>
  \<open>typeOf\<close> is \<^verbatim>\<open>info.TypeOf(expr)\<close> with the type rendered by \<^verbatim>\<open>String()\<close>;
  for a nil expression Go finds no type. \<open>typeTag\<close> is what \<^verbatim>\<open>%T\<close> prints.
  \<^verbatim>\<open>printer.Fprint\<close> is a parameter \<open>fprint\<close>: the printed text, or \<open>None\<close> when it
  returns an error, as it does for the nil expression. On the expressions of a parsed file
  it returns; trees on which it would panic are not considered.
\<close>

definition typeOf :: "info \<Rightarrow> node \<Rightarrow> string option" where
  "typeOf ti expr = (if expr = NilNode then None else TypeOf ti expr)"

fun typeTag :: "node \<Rightarrow> string" where
  "typeTag NilNode = ''<nil>''"
| "typeTag (Ident name i) = ''*ast.Ident''"
| "typeTag (StarExpr x) = ''*ast.StarExpr''"
| "typeTag (ArrayType len elt) = ''*ast.ArrayType''"
| "typeTag (MapType k v) = ''*ast.MapType''"
| "typeTag (SelectorExpr x sel) = ''*ast.SelectorExpr''"
| "typeTag (InterfaceType methods) = ''*ast.InterfaceType''"
| "typeTag (ChanType dir v) = ''*ast.ChanType''"
| "typeTag (Ellipsis elt) = ''*ast.Ellipsis''"
| "typeTag (FuncType tparams params results) = ''*ast.FuncType''"
| "typeTag (StructType fs) = ''*ast.StructType''"
| "typeTag (FieldList fs) = ''*ast.FieldList''"
| "typeTag (BasicLit v i) = ''*ast.BasicLit''"
| "typeTag (OtherNode tag children) = tag"

text \<open>\<^verbatim>\<open>strings.Join(elems, sep)\<close>.\<close>

fun Join :: "string list \<Rightarrow> string \<Rightarrow> string" where
  "Join [] sep = []"
| "Join [x] sep = x"
| "Join (x # y # ys) sep = x @ sep @ Join (y # ys) sep"

text \<open>The import path when \<open>x\<close> is an identifier that denotes a package (lines 404-410).\<close>

definition pkgPathOf :: "info \<Rightarrow> node \<Rightarrow> string option" where
  "pkgPathOf ti x =
     (case x of
        Ident name i \<Rightarrow>
          (case Uses ti i of
             Some (PkgName path) \<Rightarrow> Some path
           | _ \<Rightarrow> None)
      | _ \<Rightarrow> None)"

text \<open>
  \<open>getTypeString\<close> and \<open>getSignature\<close> call each other; \<open>fieldStrings\<close> is the loop
  over a field list that \<open>getSignature\<close> runs for the parameters and for the results.
\<close>

function (domintros) getTypeString :: "(node \<Rightarrow> string option) \<Rightarrow> node \<Rightarrow> info \<Rightarrow> string"
  and fieldStrings :: "(node \<Rightarrow> string option) \<Rightarrow> field list \<Rightarrow> info \<Rightarrow> string list"
  and getSignature :: "(node \<Rightarrow> string option) \<Rightarrow> field list \<Rightarrow> field list \<Rightarrow> info \<Rightarrow> string"
  where
  "getTypeString fprint expr ti =
     (case typeOf ti expr of
        Some tv \<Rightarrow> tv
      | None \<Rightarrow>
         (case expr of
            Ident name i \<Rightarrow> name
          | StarExpr x \<Rightarrow> ''*'' @ getTypeString fprint x ti
          | ArrayType len elt \<Rightarrow> ''[]'' @ getTypeString fprint elt ti
          | MapType k v \<Rightarrow>
              ''map['' @ getTypeString fprint k ti @ '']'' @ getTypeString fprint v ti
          | SelectorExpr x sel \<Rightarrow>
              (case pkgPathOf ti x of
                 Some path \<Rightarrow> path @ ''.'' @ sel
               | None \<Rightarrow> getTypeString fprint x ti @ ''.'' @ sel)
          | InterfaceType methods \<Rightarrow> ''interface{}''
          | ChanType dir v \<Rightarrow>
              (case dir of SEND \<Rightarrow> ''chan<- '' | RECV \<Rightarrow> ''<-chan '' | SENDRECV \<Rightarrow> ''chan '')
                @ getTypeString fprint v ti
          | Ellipsis elt \<Rightarrow> ''...'' @ getTypeString fprint elt ti
          | FuncType tparams params results \<Rightarrow> ''func'' @ getSignature fprint params results ti
          | _ \<Rightarrow> (case fprint expr of Some s \<Rightarrow> s | None \<Rightarrow> typeTag expr)))"
| "fieldStrings fprint [] ti = []"
| "fieldStrings fprint (Field names ty # rest) ti =
     (let typeStr = getTypeString fprint ty ti
      in (if length names = 0 then [typeStr] else map (\<lambda>name. name @ '' '' @ typeStr) names))
     @ fieldStrings fprint rest ti"
| "getSignature fprint params results ti =
     (let paramStrs = fieldStrings fprint params ti;
          paramStr = ''('' @ Join paramStrs '', '' @ '')'';
          resultStrs = fieldStrings fprint results ti;
          resultStr =
            (if length resultStrs > 0
             then (case (resultStrs, results) of
                     ([r], f # fs) \<Rightarrow>
                       if fieldNames f = [] then '' '' @ r else '' ('' @ Join resultStrs '', '' @ '')''
                   | _ \<Rightarrow> '' ('' @ Join resultStrs '', '' @ '')'')
             else [])
      in paramStr @ resultStr)"
  by pat_completeness auto
termination
  by (relation "measure (\<lambda>x. case x of
        Inl (fprint, expr, ti) \<Rightarrow> 2 * size expr
      | Inr (Inl (fprint, fs, ti)) \<Rightarrow> 2 * size_list size fs
      | Inr (Inr (fprint, ps, rs, ti)) \<Rightarrow> 2 * (size_list size ps + size_list size rs) + 1)")
    auto

text \<open>The expressions that no case of the type switch of \<open>getTypeString\<close> matches.\<close>

fun noCaseMatches :: "node \<Rightarrow> bool" where
  "noCaseMatches NilNode = True"
| "noCaseMatches (StructType fs) = True"
| "noCaseMatches (FieldList fs) = True"
| "noCaseMatches (BasicLit v i) = True"
| "noCaseMatches (OtherNode tag children) = True"
| "noCaseMatches expr = False"

text \<open>
  A resolved-symbol index that knows the type of the identifier \<open>int\<close> only, and in
  which the identifier number 3 denotes the imported package \<open>net/http\<close>. A printer that
  returns an error for the nil expression, prints the empty struct type as \<open>struct{}\<close>
  and gives the kind of any other node as its text.
\<close>

definition intOnlyInfo :: info where
  "intOnlyInfo = \<lparr> Uses = [3 \<mapsto> PkgName ''net/http''],
     TypeOf = (\<lambda>e. if e = Ident ''int'' 7 then Some ''int'' else None) \<rparr>"

definition samplePrinter :: "node \<Rightarrow> string option" where
  "samplePrinter e =
     (if e = NilNode then None
      else if e = StructType [] then Some ''struct{}''
      else Some (typeTag e))"

section \<open>Declarations, files and packages\<close>

text \<open>
  \<open>Position\<close> is the part of \<^verbatim>\<open>token.Position\<close> the program reads. A declaration or
  spec comes with \<^verbatim>\<open>fset.Position(x.Pos())\<close> and \<^verbatim>\<open>fset.Position(x.End())\<close>, as the
  file set resolves them. Offsets and lines are Go \<^verbatim>\<open>int\<close>s; the program only compares
  and prints them.
\<close>

record Position =
  Offset :: int
  Line :: int

text \<open>The tokens \<^verbatim>\<open>token.IMPORT\<close>, \<^verbatim>\<open>token.CONST\<close>, \<^verbatim>\<open>token.TYPE\<close> and \<^verbatim>\<open>token.VAR\<close>.\<close>

datatype token = TokIMPORT | TokCONST | TokTYPE | TokVAR

fun tokenString :: "token \<Rightarrow> string" where
  "tokenString TokIMPORT = ''import''"
| "tokenString TokCONST = ''const''"
| "tokenString TokTYPE = ''type''"
| "tokenString TokVAR = ''var''"

datatype spec =
    ImportSpec
  | TypeSpec string "field list" node
  | ValueSpec "string list" node "node list"

datatype decl =
    FuncDecl "field list" string "field list" "field list" "field list" node
  | GenDecl token "(Position \<times> Position \<times> spec) list"
  | BadDecl

record sourceFile =
  fileName :: string
  Decls :: "(Position \<times> Position \<times> decl) list"

record package =
  pkgID :: string
  pkgName :: string
  pkgErrors :: "string list"
  TypesInfo :: "info option"
  Syntax :: "sourceFile list option"
  Fset :: "unit option"

text \<open>
  The subtree that \<^verbatim>\<open>ast.Inspect\<close> walks for a function declaration (receiver, type
  with its type parameters, body), a type spec (its type parameters and its type) and a
  value spec (its type and values).
\<close>

definition funcDeclNode ::
  "field list \<Rightarrow> field list \<Rightarrow> field list \<Rightarrow> field list \<Rightarrow> node \<Rightarrow> node" where
  "funcDeclNode recv tparams params results body =
     OtherNode ''*ast.FuncDecl''
       [if recv = [] then NilNode else FieldList recv, FuncType tparams params results, body]"

definition typeSpecNode :: "field list \<Rightarrow> node \<Rightarrow> node" where
  "typeSpecNode tparams ty =
     OtherNode ''*ast.TypeSpec'' [if tparams = [] then NilNode else FieldList tparams, ty]"

definition valueSpecNode :: "node \<Rightarrow> node list \<Rightarrow> node" where
  "valueSpecNode ty vals = OtherNode ''*ast.ValueSpec'' (ty # vals)"

section \<open>Chunk records\<close>

datatype mvalue = S string | I int

record ChromaDocument =
  docID :: string
  Document :: string
  Metadata :: "string \<Rightarrow> mvalue option"

text \<open>
  What the program gets from outside: \<^verbatim>\<open>packages.Load\<close> and \<^verbatim>\<open>ioutil.ReadFile\<close>
  return a value or an error (\<open>Inl\<close> with the error's message), \<^verbatim>\<open>printer.Fprint\<close>
  prints a node or fails, and the scheduler fixes the iteration orders.
\<close>

record env =
  Load :: "string \<Rightarrow> string + package list"
  ReadFile :: "string \<Rightarrow> string + string"
  Fprint :: "node \<Rightarrow> string option"
  Sched :: scheduler

text \<open>The slice under construction and the lines written by \<^verbatim>\<open>log.Printf\<close>, in order.\<close>

record state =
  chunks :: "ChromaDocument list"
  logs :: "string list"

definition logPrint :: "string \<Rightarrow> state \<Rightarrow> state" where
  "logPrint msg st = st\<lparr>logs := logs st @ [msg]\<rparr>"

definition appendChunk :: "ChromaDocument \<Rightarrow> state \<Rightarrow> state" where
  "appendChunk c st = st\<lparr>chunks := chunks st @ [c]\<rparr>"

text \<open>
  The state before anything is emitted, and a state extended by what another one holds:
  every loop body of \<open>processGoProject\<close> only appends to the chunks and to the log.
\<close>

definition emptyState :: state where
  "emptyState = \<lparr> chunks = [], logs = [] \<rparr>"

definition addOutput :: "state \<Rightarrow> state \<Rightarrow> state" where
  "addOutput st out = \<lparr> chunks = chunks st @ chunks out, logs = logs st @ logs out \<rparr>"

definition appendOnly :: "(state \<Rightarrow> 'a \<Rightarrow> state) \<Rightarrow> bool" where
  "appendOnly f = (\<forall>st x. f st x = addOutput st (f emptyState x))"

text \<open>
  \<open>slice s a b\<close> is \<^verbatim>\<open>s[a:b]\<close>. Go panics unless \<open>0 \<le> a \<le> b \<le> len(s)\<close>; the
  program slices only behind the check of exactly this condition.
\<close>

definition slice :: "string \<Rightarrow> int \<Rightarrow> int \<Rightarrow> string" where
  "slice s a b = take (nat (b - a)) (drop (nat a) s)"

definition invalidOffsets :: "int \<Rightarrow> int \<Rightarrow> string \<Rightarrow> bool" where
  "invalidOffsets startOffset endOffset content =
     (startOffset < 0 \<or> endOffset > int (length content) \<or> startOffset > endOffset)"

text \<open>
  The diagnostic of lines 118-119 (for a declaration) and 165-166 (for a spec); \<open>what\<close> is
  the word \<open>declaration\<close> or \<open>spec\<close>.
\<close>

definition invalidOffsetsWarning :: "string \<Rightarrow> string \<Rightarrow> Position \<Rightarrow> Position \<Rightarrow> string \<Rightarrow> string" where
  "invalidOffsetsWarning what filePath startPos endPos content =
     ''Warning: Invalid offsets for '' @ what @ '' in '' @ filePath @ '' (line ''
       @ Itoa (Line startPos) @ ''): start='' @ Itoa (Offset startPos)
       @ '', end='' @ Itoa (Offset endPos) @ '', file_len=''
       @ Itoa (int (length content)) @ ''. Skipping '' @ what @ ''.''"

text \<open>The id of allsymbols.go, \<^verbatim>\<open>"%s:%d-%d-%s"\<close>, and of go\_ast\_parser.go, \<^verbatim>\<open>"%s:%d-%d"\<close>.\<close>

definition chunkID :: "string \<Rightarrow> int \<Rightarrow> int \<Rightarrow> string \<Rightarrow> string" where
  "chunkID filePath startLine endLine name =
     filePath @ '':'' @ Itoa startLine @ ''-'' @ Itoa endLine @ ''-'' @ name"

definition chunkIDV1 :: "string \<Rightarrow> int \<Rightarrow> int \<Rightarrow> string" where
  "chunkIDV1 filePath startLine endLine =
     filePath @ '':'' @ Itoa startLine @ ''-'' @ Itoa endLine"

section \<open>processGoProject (allsymbols.go)\<close>

text \<open>The classification of a type spec by the shape of its type, lines 189-195.\<close>

definition typeCategory :: "node \<Rightarrow> string" where
  "typeCategory ty =
     (case ty of
        StructType fs \<Rightarrow> ''struct''
      | InterfaceType ms \<Rightarrow> ''interface''
      | _ \<Rightarrow> ''alias_or_basic'')"

text \<open>The body of the loop over the specs of a general declaration, lines 158-233.\<close>

definition processSpec ::
  "env \<Rightarrow> info \<Rightarrow> string \<Rightarrow> string \<Rightarrow> (string \<Rightarrow> mvalue option) \<Rightarrow> token \<Rightarrow>
   state \<Rightarrow> Position \<times> Position \<times> spec \<Rightarrow> state" where
  "processSpec e ti filePath content metadata tok st sp =
     (case sp of (specStartPos, specEndPos, sp') \<Rightarrow>
        let specStartOffset = Offset specStartPos;
            specEndOffset = Offset specEndPos
        in if invalidOffsets specStartOffset specEndOffset content
           then logPrint (invalidOffsetsWarning ''spec'' filePath specStartPos specEndPos content) st
           else
             let specChunkCode = slice content specStartOffset specEndOffset;
                 specMetadata = metadata
                   (''start_line'' \<mapsto> I (Line specStartPos),
                    ''end_line'' \<mapsto> I (Line specEndPos),
                    ''declaration_kind'' \<mapsto> S (tokenString tok))
             in case sp' of
                  TypeSpec entityName tparams ty \<Rightarrow>
                    let specMetadata1 = specMetadata
                          (''entity_type'' \<mapsto> S ''type_declaration'',
                           ''entity_name'' \<mapsto> S entityName,
                           ''type_definition'' \<mapsto> S (getTypeString (Fprint e) ty ti));
                        specMetadata2 = specMetadata1(''type_category'' \<mapsto> S (typeCategory ty));
                        finalChunkCode =
                          applyQualifierReplacements (Sched e) specChunkCode (typeSpecNode tparams ty) (Some ti)
                    in appendChunk
                         \<lparr> docID = chunkID filePath (Line specStartPos) (Line specEndPos) entityName,
                           Document = finalChunkCode,
                           Metadata = specMetadata2 \<rparr> st
                | ValueSpec names ty vals \<Rightarrow>
                    let entityName = Join names '', '';
                        specMetadata1 = specMetadata
                          (''entity_type'' \<mapsto> S ''value_declaration'',
                           ''entity_name'' \<mapsto> S entityName);
                        specMetadata2 =
                          (if ty \<noteq> NilNode
                           then specMetadata1(''declared_type'' \<mapsto> S (getTypeString (Fprint e) ty ti))
                           else case vals of
                                  [] \<Rightarrow> specMetadata1
                                | v # vs \<Rightarrow>
                                    (case typeOf ti v of
                                       None \<Rightarrow> specMetadata1
                                     | Some tv \<Rightarrow> specMetadata1(''inferred_type'' \<mapsto> S tv)));
                        finalChunkCode =
                          applyQualifierReplacements (Sched e) specChunkCode
                            (valueSpecNode ty vals) (Some ti)
                    in appendChunk
                         \<lparr> docID = chunkID filePath (Line specStartPos) (Line specEndPos) entityName,
                           Document = finalChunkCode,
                           Metadata = specMetadata2 \<rparr> st
                | ImportSpec \<Rightarrow> st)"

text \<open>The body of the loop over the declarations of a file, lines 102-235.\<close>

definition processDecl ::
  "env \<Rightarrow> info \<Rightarrow> string \<Rightarrow> string \<Rightarrow> string \<Rightarrow>
   state \<Rightarrow> Position \<times> Position \<times> decl \<Rightarrow> state" where
  "processDecl e ti packageName filePath content st d =
     (case d of (startPos, endPos, d') \<Rightarrow>
        let metadata = [''file_path'' \<mapsto> S filePath, ''package_name'' \<mapsto> S packageName];
            startOffset = Offset startPos;
            endOffset = Offset endPos
        in if invalidOffsets startOffset endOffset content
           then logPrint (invalidOffsetsWarning ''declaration'' filePath startPos endPos content) st
           else
             let declChunkCode = slice content startOffset endOffset
             in case d' of
                  FuncDecl recv name tparams params results body \<Rightarrow>
                    let metadata1 = metadata
                          (''entity_type'' \<mapsto> S ''function'',
                           ''entity_name'' \<mapsto> S name,
                           ''start_line'' \<mapsto> I (Line startPos),
                           ''end_line'' \<mapsto> I (Line endPos),
                           ''signature'' \<mapsto> S (getSignature (Fprint e) params results ti));
                        metadata2 =
                          (case recv of
                             [] \<Rightarrow> metadata1
                           | r # rs \<Rightarrow>
                               let receiverType = getTypeString (Fprint e) (fieldType r) ti
                               in metadata1
                                    (''entity_type'' \<mapsto> S ''method'',
                                     ''receiver_type'' \<mapsto> S receiverType,
                                     ''entity_name'' \<mapsto> S (receiverType @ ''.'' @ name)));
                        finalChunkCode =
                          applyQualifierReplacements (Sched e) declChunkCode
                            (funcDeclNode recv tparams params results body) (Some ti)
                    in appendChunk
                         \<lparr> docID = chunkID filePath (Line startPos) (Line endPos) name,
                           Document = finalChunkCode,
                           Metadata = metadata2 \<rparr> st
                | GenDecl tok specs \<Rightarrow>
                    if tok = TokIMPORT then st
                    else foldl (processSpec e ti filePath content metadata tok) st specs
                | BadDecl \<Rightarrow> st)"

text \<open>The body of the loop over the files of a package, lines 90-236.\<close>

definition processFile :: "env \<Rightarrow> info \<Rightarrow> string \<Rightarrow> state \<Rightarrow> sourceFile \<Rightarrow> state" where
  "processFile e ti packageName st f =
     (let filePath = fileName f
      in case ReadFile e filePath of
           Inl err \<Rightarrow> logPrint (''Error reading file '' @ filePath @ '': '' @ err) st
         | Inr originalFileContentString \<Rightarrow>
             foldl (processDecl e ti packageName filePath originalFileContentString) st (Decls f))"

text \<open>The body of the loop over the packages, lines 84-237.\<close>

definition processPackage :: "env \<Rightarrow> state \<Rightarrow> package \<Rightarrow> state" where
  "processPackage e st pkg =
     (case (TypesInfo pkg, Syntax pkg, Fset pkg) of
        (Some ti, Some files, Some fset) \<Rightarrow> foldl (processFile e ti (pkgName pkg)) st files
      | _ \<Rightarrow> logPrint (''Skipping package '' @ pkgID pkg
               @ '' due to missing type information, syntax trees, or fileset.'') st)"

text \<open>The log lines of the loop over the loading errors, lines 71-82.\<close>

definition loadErrorLogs :: "package list \<Rightarrow> string list" where
  "loadErrorLogs pkgs =
     concat (map (\<lambda>pkg. map (\<lambda>pkgErr. ''Package loading error in '' @ pkgID pkg @ '': '' @ pkgErr)
                          (pkgErrors pkg)) pkgs)
     @ (if list_ex (\<lambda>pkg. pkgErrors pkg \<noteq> []) pkgs
        then [''Errors occurred during package loading. Some information might be incomplete. Continuing with available data.'']
        else [])"

text \<open>
  \<open>processGoProject\<close> returns the log and either the error (\<open>Inl\<close>) or the chunks.
\<close>

definition processGoProject :: "env \<Rightarrow> string \<Rightarrow> string list \<times> (string + ChromaDocument list)" where
  "processGoProject e projectPath =
     (let log0 = [''Loading packages from '' @ projectPath @ ''...'']
      in case Load e projectPath of
           Inl err \<Rightarrow> (log0, Inl (''failed to load packages: '' @ err))
         | Inr pkgs \<Rightarrow>
             let log1 = log0 @ [''Finished loading '' @ Itoa (int (length pkgs)) @ '' packages.'']
                          @ loadErrorLogs pkgs;
                 st = foldl (processPackage e) \<lparr> chunks = [], logs = log1 \<rparr> pkgs
             in (logs st, Inr (chunks st)))"

section \<open>processGoProject (go\_ast\_parser.go)\<close>

text \<open>
  The earlier program makes chunks of function declarations only. Its
  \<^verbatim>\<open>ast.Inspect\<close> over the file meets a \<^verbatim>\<open>*ast.FuncDecl\<close> only among the
  declarations of the file, in their order. The diagnostic of lines 116-117 names the
  function; the id of line 174 has no name.
\<close>

definition invalidOffsetsWarningV1 :: "string \<Rightarrow> string \<Rightarrow> int \<Rightarrow> int \<Rightarrow> string \<Rightarrow> string" where
  "invalidOffsetsWarningV1 name filePath startOffset endOffset content =
     ''Warning: Invalid offsets for function '' @ name @ '' in '' @ filePath
       @ '': start='' @ Itoa startOffset @ '', end='' @ Itoa endOffset
       @ '', file_len='' @ Itoa (int (length content)) @ ''. Skipping chunk.''"

definition processDeclV1 ::
  "env \<Rightarrow> info \<Rightarrow> string \<Rightarrow> string \<Rightarrow> string \<Rightarrow>
   state \<Rightarrow> Position \<times> Position \<times> decl \<Rightarrow> state" where
  "processDeclV1 e ti packageName filePath content st d =
     (case d of (startPos, endPos, d') \<Rightarrow>
        case d' of
          FuncDecl recv name tparams params results body \<Rightarrow>
            let startOffset = Offset startPos;
                endOffset = Offset endPos
            in if invalidOffsets startOffset endOffset content
               then logPrint (invalidOffsetsWarningV1 name filePath startOffset endOffset content) st
               else
                 let chunkCode = slice content startOffset endOffset;
                     chunkCode1 =
                       applyQualifierReplacementsV1 (Sched e) chunkCode
                         (funcDeclNode recv tparams params results body) ti;
                     metadata =
                       [''file_path'' \<mapsto> S filePath,
                        ''package_name'' \<mapsto> S packageName,
                        ''entity_type'' \<mapsto> S ''function'',
                        ''entity_name'' \<mapsto> S name,
                        ''start_line'' \<mapsto> I (Line startPos),
                        ''end_line'' \<mapsto> I (Line endPos),
                        ''signature'' \<mapsto> S (getSignature (Fprint e) params results ti)];
                     metadata1 =
                       (case recv of
                          [] \<Rightarrow> metadata
                        | r # rs \<Rightarrow>
                            let receiverType = getTypeString (Fprint e) (fieldType r) ti
                            in metadata
                                 (''entity_type'' \<mapsto> S ''method'',
                                  ''receiver_type'' \<mapsto> S receiverType,
                                  ''entity_name'' \<mapsto> S (receiverType @ ''.'' @ name)))
                 in appendChunk
                      \<lparr> docID = chunkIDV1 filePath (Line startPos) (Line endPos),
                        Document = chunkCode1,
                        Metadata = metadata1 \<rparr> st
        | _ \<Rightarrow> st)"

definition processFileV1 :: "env \<Rightarrow> info \<Rightarrow> string \<Rightarrow> state \<Rightarrow> sourceFile \<Rightarrow> state" where
  "processFileV1 e ti packageName st f =
     (let filePath = fileName f
      in case ReadFile e filePath of
           Inl err \<Rightarrow> logPrint (''Error reading file '' @ filePath @ '': '' @ err) st
         | Inr originalFileBytes \<Rightarrow>
             foldl (processDeclV1 e ti packageName filePath originalFileBytes) st (Decls f))"

definition processPackageV1 :: "env \<Rightarrow> state \<Rightarrow> package \<Rightarrow> state" where
  "processPackageV1 e st pkg =
     (case (TypesInfo pkg, Syntax pkg, Fset pkg) of
        (Some ti, Some files, Some fset) \<Rightarrow> foldl (processFileV1 e ti (pkgName pkg)) st files
      | _ \<Rightarrow> logPrint (''Skipping package '' @ pkgID pkg
               @ '' due to missing type information, syntax trees, or fileset.'') st)"

definition processGoProjectV1 :: "env \<Rightarrow> string \<Rightarrow> string list \<times> (string + ChromaDocument list)" where
  "processGoProjectV1 e projectPath =
     (let log0 = [''Loading packages from '' @ projectPath @ ''...'']
      in case Load e projectPath of
           Inl err \<Rightarrow> (log0, Inl (''failed to load packages: '' @ err))
         | Inr pkgs \<Rightarrow>
             let log1 = log0 @ [''Finished loading '' @ Itoa (int (length pkgs)) @ '' packages.'']
                          @ loadErrorLogs pkgs;
                 st = foldl (processPackageV1 e) \<lparr> chunks = [], logs = log1 \<rparr> pkgs
             in (logs st, Inr (chunks st)))"

section \<open>Spans behind the chunks\<close>

text \<open>
  The offset pairs the program computes for a declaration: its own, and those of its specs
  when it is a general declaration. \<open>chunkFromSpan\<close>: the document of the chunk is the
  canonicalization of the slice of the buffer at one of these pairs, and the pair lies
  within the buffer.
\<close>

definition spansOf :: "Position \<times> Position \<times> decl \<Rightarrow> (int \<times> int) list" where
  "spansOf d =
     (case d of (startPos, endPos, d') \<Rightarrow>
        (Offset startPos, Offset endPos) #
        (case d' of
           GenDecl tok specs \<Rightarrow> map (\<lambda>(s, e, x). (Offset s, Offset e)) specs
         | _ \<Rightarrow> []))"

definition chunkFromSpan ::
  "scheduler \<Rightarrow> info \<Rightarrow> string \<Rightarrow> Position \<times> Position \<times> decl \<Rightarrow> ChromaDocument \<Rightarrow> bool" where
  "chunkFromSpan sch ti content d c =
     (\<exists>(a, b) \<in> set (spansOf d).
        0 \<le> a \<and> a \<le> b \<and> b \<le> int (length content) \<and>
        (\<exists>n. Document c = applyQualifierReplacements sch (slice content a b) n (Some ti)))"

text \<open>The chunks of a result, none when it is an error.\<close>

definition resultChunks :: "string list \<times> (string + ChromaDocument list) \<Rightarrow> ChromaDocument list" where
  "resultChunks r = (case snd r of Inl err \<Rightarrow> [] | Inr cs \<Rightarrow> cs)"

text \<open>
  \<open>chunkInProject\<close>: the chunk comes from a span of a declaration of a readable file of a
  package that has its type information and syntax trees.
\<close>

definition chunkInProject :: "env \<Rightarrow> package list \<Rightarrow> ChromaDocument \<Rightarrow> bool" where
  "chunkInProject e pkgs c =
     (\<exists>pkg \<in> set pkgs. \<exists>ti files.
        TypesInfo pkg = Some ti \<and> Syntax pkg = Some files \<and>
        (\<exists>f \<in> set files. \<exists>content.
           ReadFile e (fileName f) = Inr content \<and>
           (\<exists>d \<in> set (Decls f). chunkFromSpan (Sched e) ti content d c)))"

section \<open>Concrete projects\<close>

definition mkPos :: "int \<Rightarrow> int \<Rightarrow> Position" where
  "mkPos off ln = \<lparr> Offset = off, Line = ln \<rparr>"

definition emptyBody :: node where
  "emptyBody = OtherNode ''*ast.BlockStmt'' []"

definition noInfo :: info where
  "noInfo = \<lparr> Uses = Map.empty, TypeOf = (\<lambda>e. None) \<rparr>"

definition mkPackage :: "sourceFile list \<Rightarrow> package" where
  "mkPackage files = \<lparr> pkgID = ''example.com/p'', pkgName = ''p'', pkgErrors = [],
     TypesInfo = Some noInfo, Syntax = Some files, Fset = Some () \<rparr>"

definition mkEnv :: "sourceFile list \<Rightarrow> (string \<Rightarrow> string + string) \<Rightarrow> env" where
  "mkEnv files rd = \<lparr> Load = (\<lambda>path. Inr [mkPackage files]), ReadFile = rd,
     Fprint = samplePrinter, Sched = fifoScheduler \<rparr>"

text \<open>
  stale.go: the tree was parsed from a longer file than the one read from disk. The buffer
  holds \<^verbatim>\<open>func F() {}\<close> at offsets 10 to 21 and ends at 22; the tree also has a function
  \<open>G\<close> at offsets 23 to 34.
\<close>

definition staleContent :: string where
  "staleContent = ''package p'' @ [CHR 0x0A] @ ''func F() {}'' @ [CHR 0x0A]"

definition staleFile :: sourceFile where
  "staleFile = \<lparr> fileName = ''stale.go'', Decls =
     [(mkPos 23 3, mkPos 34 3, FuncDecl [] ''G'' [] [] [] emptyBody),
      (mkPos 10 2, mkPos 21 2, FuncDecl [] ''F'' [] [] [] emptyBody)] \<rparr>"

definition staleEnv :: env where
  "staleEnv = mkEnv [staleFile] (\<lambda>path. Inr staleContent)"

text \<open>
  group.go: an import declaration and a group of two type specs, each on a line of its own.
\<close>

definition groupContent :: string where
  "groupContent = ''package p'' @ [CHR 0x0A]
     @ ''import '' @ [CHR 0x22] @ ''fmt'' @ [CHR 0x22, CHR 0x0A]
     @ ''type ('' @ [CHR 0x0A, CHR 0x09] @ ''A struct{}'' @ [CHR 0x0A, CHR 0x09]
     @ ''B interface{}'' @ [CHR 0x0A] @ '')'' @ [CHR 0x0A]"

definition groupDecl :: "Position \<times> Position \<times> decl" where
  "groupDecl = (mkPos 23 3, mkPos 58 6, GenDecl TokTYPE
     [(mkPos 31 4, mkPos 41 4, TypeSpec ''A'' [] (StructType [])),
      (mkPos 43 5, mkPos 56 5, TypeSpec ''B'' [] (InterfaceType []))])"

definition groupFile :: sourceFile where
  "groupFile = \<lparr> fileName = ''group.go'', Decls =
     [(mkPos 10 2, mkPos 22 2, GenDecl TokIMPORT [(mkPos 17 2, mkPos 22 2, ImportSpec)]),
      groupDecl] \<rparr>"

text \<open>gone.go: a file of the package that cannot be read any more.\<close>

definition goneFile :: sourceFile where
  "goneFile = \<lparr> fileName = ''gone.go'', Decls =
     [(mkPos 10 2, mkPos 21 2, FuncDecl [] ''F'' [] [] [] emptyBody)] \<rparr>"

definition goneEnv :: env where
  "goneEnv = mkEnv [goneFile, groupFile]
     (\<lambda>path. if path = ''group.go'' then Inr groupContent
              else Inl (''open '' @ path @ '': no such file or directory''))"

section \<open>Projects without their unreadable files\<close>

definition projectChunks :: "env \<Rightarrow> package list \<Rightarrow> ChromaDocument list" where
  "projectChunks e pkgs = chunks (foldl (processPackage e) emptyState pkgs)"

definition readable :: "env \<Rightarrow> sourceFile \<Rightarrow> bool" where
  "readable e f = (case ReadFile e (fileName f) of Inl err \<Rightarrow> False | Inr content \<Rightarrow> True)"

definition dropUnreadable :: "env \<Rightarrow> package \<Rightarrow> package" where
  "dropUnreadable e pkg = pkg\<lparr>Syntax := map_option (filter (readable e)) (Syntax pkg)\<rparr>"

text \<open>
  line.go: the same group written on one line,
  \<^verbatim>\<open>type ( A struct{}; B interface{} )\<close>.
\<close>

definition oneLineContent :: string where
  "oneLineContent = ''package p'' @ [CHR 0x0A] @ ''type ( A struct{}; B interface{} )'' @ [CHR 0x0A]"

definition oneLineFile :: sourceFile where
  "oneLineFile = \<lparr> fileName = ''line.go'', Decls =
     [(mkPos 10 2, mkPos 44 2, GenDecl TokTYPE
        [(mkPos 17 2, mkPos 27 2, TypeSpec ''A'' [] (StructType [])),
         (mkPos 29 2, mkPos 42 2, TypeSpec ''B'' [] (InterfaceType []))])] \<rparr>"

definition oneLineEnv :: env where
  "oneLineEnv = mkEnv [oneLineFile] (\<lambda>path. Inr oneLineContent)"

text \<open>The name, type category and line range recorded in a chunk's metadata.\<close>

definition chunkSummary ::
  "ChromaDocument \<Rightarrow> mvalue option \<times> mvalue option \<times> mvalue option \<times> mvalue option" where
  "chunkSummary c =
     (Metadata c ''entity_name'', Metadata c ''type_category'',
      Metadata c ''start_line'', Metadata c ''end_line'')"

text \<open>
  dup.go: two \<open>init\<close> functions on one line,
  \<^verbatim>\<open>func init() {}; func init() {}\<close>.
\<close>

definition dupContent :: string where
  "dupContent = ''package p'' @ [CHR 0x0A] @ ''func init() {}; func init() {}'' @ [CHR 0x0A]"

definition dupFile :: sourceFile where
  "dupFile = \<lparr> fileName = ''dup.go'', Decls =
     [(mkPos 10 2, mkPos 24 2, FuncDecl [] ''init'' [] [] [] emptyBody),
      (mkPos 26 2, mkPos 40 2, FuncDecl [] ''init'' [] [] [] emptyBody)] \<rparr>"

definition dupEnv :: env where
  "dupEnv = mkEnv [dupFile] (\<lambda>path. Inr dupContent)"

text \<open>
  The name that the id of a chunk is built from, read off the metadata: the entity name,
  without the receiver type and the dot that the entity name of a method begins with.
\<close>

definition declaredName :: "ChromaDocument \<Rightarrow> string option" where
  "declaredName c =
     (case Metadata c ''entity_name'' of
        Some (S entityName) \<Rightarrow>
          (case Metadata c ''receiver_type'' of
             Some (S receiverType) \<Rightarrow> Some (drop (length receiverType + 1) entityName)
           | _ \<Rightarrow> Some entityName)
      | _ \<Rightarrow> None)"

text \<open>
  meth.go: two methods \<open>M\<close> on one line and a function on the next,
  \<^verbatim>\<open>func (A) M() {}; func (B) M() {}\<close> and \<^verbatim>\<open>func N() {}\<close>; the types \<open>A\<close> and
  \<open>B\<close> are declared in another file of the package \<open>example.com/p\<close>.
\<close>

definition methContent :: string where
  "methContent = ''package p'' @ [CHR 0x0A] @ ''func (A) M() {}; func (B) M() {}'' @ [CHR 0x0A]
     @ ''func N() {}'' @ [CHR 0x0A]"

definition methFile :: sourceFile where
  "methFile = \<lparr> fileName = ''meth.go'', Decls =
     [(mkPos 10 2, mkPos 25 2, FuncDecl [Field [] (Ident ''A'' 1)] ''M'' [] [] [] emptyBody),
      (mkPos 27 2, mkPos 42 2, FuncDecl [Field [] (Ident ''B'' 2)] ''M'' [] [] [] emptyBody),
      (mkPos 43 3, mkPos 54 3, FuncDecl [] ''N'' [] [] [] emptyBody)] \<rparr>"

definition methInfo :: info where
  "methInfo = \<lparr> Uses = Map.empty,
     TypeOf = [Ident ''A'' 1 \<mapsto> ''example.com/p.A'', Ident ''B'' 2 \<mapsto> ''example.com/p.B''] \<rparr>"

definition methEnv :: env where
  "methEnv = \<lparr> Load = (\<lambda>path. Inr [(mkPackage [methFile])\<lparr>TypesInfo := Some methInfo\<rparr>]),
     ReadFile = (\<lambda>path. Inr methContent),
     Fprint = samplePrinter, Sched = fifoScheduler \<rparr>"

text \<open>
  The generic function \<^verbatim>\<open>func Max[T constraints.Ordered](a, b T) T { return a }\<close>:
  \<open>constraints\<close> is the local name of the import \<open>golang.org/x/exp/constraints\<close> and
  occurs in the type parameter list only.
\<close>

definition maxDeclNode :: node where
  "maxDeclNode = funcDeclNode []
     [Field [''T''] (SelectorExpr (Ident ''constraints'' 1) ''Ordered'')]
     [Field [''a'', ''b''] (Ident ''T'' 2)] [Field [] (Ident ''T'' 3)]
     (OtherNode ''*ast.BlockStmt'' [OtherNode ''*ast.ReturnStmt'' [Ident ''a'' 4]])"

definition maxDeclInfo :: info where
  "maxDeclInfo = \<lparr> Uses = [1 \<mapsto> PkgName ''golang.org/x/exp/constraints'', 2 \<mapsto> OtherObject,
       3 \<mapsto> OtherObject, 4 \<mapsto> OtherObject],
     TypeOf = (\<lambda>e. None) \<rparr>"

text \<open>
  lit.go: \<^verbatim>\<open>var a = 1\<close> and \<^verbatim>\<open>const c = 1\<close>. The two literals have the same text;
  the checker records the type \<open>int\<close> for the first and \<open>untyped int\<close> for the second.
\<close>

definition litContent :: string where
  "litContent = ''package p'' @ [CHR 0x0A] @ ''var a = 1'' @ [CHR 0x0A] @ ''const c = 1'' @ [CHR 0x0A]"

definition litFile :: sourceFile where
  "litFile = \<lparr> fileName = ''lit.go'', Decls =
     [(mkPos 10 2, mkPos 19 2, GenDecl TokVAR
        [(mkPos 14 2, mkPos 19 2, ValueSpec [''a''] NilNode [BasicLit ''1'' 1])]),
      (mkPos 20 3, mkPos 31 3, GenDecl TokCONST
        [(mkPos 26 3, mkPos 31 3, ValueSpec [''c''] NilNode [BasicLit ''1'' 2])])] \<rparr>"

definition litInfo :: info where
  "litInfo = \<lparr> Uses = Map.empty,
     TypeOf = [BasicLit ''1'' 1 \<mapsto> ''int'', BasicLit ''1'' 2 \<mapsto> ''untyped int''] \<rparr>"

definition litEnv :: env where
  "litEnv = \<lparr> Load = (\<lambda>path. Inr [(mkPackage [litFile])\<lparr>TypesInfo := Some litInfo\<rparr>]),
     ReadFile = (\<lambda>path. Inr litContent),
     Fprint = samplePrinter, Sched = fifoScheduler \<rparr>"

text \<open>
  The call \<^verbatim>\<open>ab.X(__.Y)\<close>: \<open>ab\<close> is the local name of the import \<open>p/ab\<close> and \<open>__\<close>
  the local name of the import \<open>p/u\<close>.
\<close>

definition underscoreCall :: node where
  "underscoreCall = OtherNode ''*ast.CallExpr''
     [SelectorExpr (Ident ''ab'' 1) ''X'', SelectorExpr (Ident ''__'' 2) ''Y'']"

definition underscoreInfo :: info where
  "underscoreInfo = \<lparr> Uses = [1 \<mapsto> PkgName ''p/ab'', 2 \<mapsto> PkgName ''p/u''],
     TypeOf = (\<lambda>e. None) \<rparr>"

section \<open>Texts as dot-terminated segments\<close>

text \<open>
  \<open>splitDots c\<close> cuts a text at its dots: the segments that are followed by a dot, in
  order, and the rest after the last dot. A pattern \<open>alias.\<close> can only match at the end of
  such a segment.
\<close>

fun splitDots :: "string \<Rightarrow> string list \<times> string" where
  "splitDots [] = ([], [])"
| "splitDots (x # xs) =
     (case splitDots xs of
        (segs, fin) \<Rightarrow>
          if x = CHR ''.'' then ([] # segs, fin)
          else (case segs of
                  [] \<Rightarrow> ([], x # fin)
                | s # ss \<Rightarrow> ((x # s) # ss, fin)))"

text \<open>
  The conditions under which the outcome does not depend on the iteration order: an alias
  is not empty, has no dot and does not end in an underscore; a canonical path has no
  underscore right before a dot or at its end.
\<close>

definition plainAlias :: "string \<Rightarrow> bool" where
  "plainAlias k = (k \<noteq> [] \<and> CHR ''.'' \<notin> set k \<and> last k \<noteq> CHR ''_'')"

definition plainPath :: "string \<Rightarrow> bool" where
  "plainPath p = (\<not> sublist ''_.'' (p @ ''.''))"

definition plainMap :: "gomap \<Rightarrow> bool" where
  "plainMap m = list_all (\<lambda>(k, p). plainAlias k \<and> plainPath p) m"

text \<open>
  The rewriting segment by segment. \<open>aliasAtEnd qs s\<close> is the first key of \<open>qs\<close> that the
  segment \<open>s\<close> ends with; \<open>rewriteSegment m qs s\<close> replaces it by its value in \<open>m\<close>.
  \<open>canonicalText m c\<close> rewrites every dot-terminated segment of \<open>c\<close> at its longest alias:
  the text the two passes aim at, defined without placeholders and iteration orders.
  \<open>pass2Item\<close> is a segment between the two passes, when the placeholders in \<open>D\<close> have
  been resolved already.
\<close>

definition aliasAtEnd :: "string list \<Rightarrow> string \<Rightarrow> string option" where
  "aliasAtEnd qs s = find (\<lambda>q. suffix q s) qs"

definition rewriteSegment :: "gomap \<Rightarrow> string list \<Rightarrow> string \<Rightarrow> string" where
  "rewriteSegment m qs s =
     (case aliasAtEnd qs s of
        None \<Rightarrow> s
      | Some q \<Rightarrow> take (length s - length q) s @ mapGet m q)"

definition canonicalText :: "gomap \<Rightarrow> string \<Rightarrow> string" where
  "canonicalText m c =
     (case splitDots c of
        (segs, fin) \<Rightarrow>
          concat (map (\<lambda>s. rewriteSegment m (sortByLenDesc (map fst m)) s @ ''.'') segs) @ fin)"

definition pass2Item :: "gomap \<Rightarrow> gomap \<Rightarrow> string list \<Rightarrow> string set \<Rightarrow> string \<Rightarrow> string" where
  "pass2Item t f qs D s =
     (case aliasAtEnd qs s of
        None \<Rightarrow> s @ ''.''
      | Some q \<Rightarrow>
          take (length s - length q) s
            @ (if mapGet t q \<in> D then mapGet f (mapGet t q) else mapGet t q) @ ''.'')"

chapter \<open>Properties\<close>

section \<open>Schedulers\<close>


lemma validScheduler_fifo: "validScheduler fifoScheduler"
  by (simp add: validScheduler_def validRange_def validSort_def fifoScheduler_def
      sortByLenDesc_def lenDesc_def sorted_wrt_rev sorted_sort_key
      flip: sorted_wrt_map[where f = length and R = "(\<le>)"])

lemma mset_two_cases:
  assumes "mset xs = {#a, b#}"
  shows "xs = [a, b] \<or> xs = [b, a]"
proof -
  from assms have "length xs = 2"
    by (metis size_mset size_add_mset size_empty numeral_2_eq_2)
  then obtain x y where xs: "xs = [x, y]"
    by (metis (no_types, opaque_lifting) One_nat_def Suc_1 length_0_conv length_Suc_conv)
  with assms show ?thesis
    by (auto simp: add_eq_conv_ex)
qed

lemma mset_one_case: "mset xs = {#a#} \<Longrightarrow> xs = [a]"
  by (cases xs) auto

lemma twoPassReplace_unfold:
  assumes "assignPlaceholders (rangeReplacements sch m) 0 ([], []) = (t, f)"
  shows "twoPassReplace sch m c =
     replacePass f (sortPlaceholders sch (map fst (rangeFinalMap sch f)))
       (replacePass t (sortQualifiers sch (map fst (rangeTempMap sch t))) c)"
  using assms by (simp add: twoPassReplace_def Let_def)

lemma sched_range: "validScheduler sch \<Longrightarrow> mset (rangeReplacements sch m) = mset m"
  "validScheduler sch \<Longrightarrow> mset (rangeTempMap sch m) = mset m"
  "validScheduler sch \<Longrightarrow> mset (rangeFinalMap sch m) = mset m"
  by (simp_all add: validScheduler_def validRange_def)

lemma sched_sort: "validScheduler sch \<Longrightarrow> mset (sortQualifiers sch xs) = mset xs"
  "validScheduler sch \<Longrightarrow> lenDesc (sortQualifiers sch xs)"
  "validScheduler sch \<Longrightarrow> mset (sortPlaceholders sch xs) = mset xs"
  "validScheduler sch \<Longrightarrow> lenDesc (sortPlaceholders sch xs)"
  by (simp_all add: validScheduler_def validSort_def)

lemma sched_qualifiers:
  "validScheduler sch \<Longrightarrow> mset (sortQualifiers sch (map fst (rangeTempMap sch m))) = mset (map fst m)"
  by (metis sched_sort(1) sched_range(2) mset_map)

lemma sched_placeholders:
  "validScheduler sch \<Longrightarrow> mset (sortPlaceholders sch (map fst (rangeFinalMap sch m))) = mset (map fst m)"
  by (metis sched_sort(3) sched_range(3) mset_map)


lemma validScheduler_lifo: "validScheduler lifoScheduler"
  by (simp add: validScheduler_def validRange_def validSort_def lifoScheduler_def
      sortByLenDesc_def lenDesc_def sorted_wrt_rev sorted_sort_key
      flip: sorted_wrt_map[where f = length and R = "(\<le>)"])


section \<open>No collateral rewrite between an alias and a longer alias\<close>

lemma c1_assign:
  "assignPlaceholders [(''a'', ''pkg/a''), (''ab'', ''pkg/ab'')] 0 ([], []) =
     ([(''a'', ''__GO_QUALIFIER_TEMP_0__''), (''ab'', ''__GO_QUALIFIER_TEMP_1__'')],
      [(''__GO_QUALIFIER_TEMP_0__'', ''pkg/a''), (''__GO_QUALIFIER_TEMP_1__'', ''pkg/ab'')])"
  "assignPlaceholders [(''ab'', ''pkg/ab''), (''a'', ''pkg/a'')] 0 ([], []) =
     ([(''ab'', ''__GO_QUALIFIER_TEMP_0__''), (''a'', ''__GO_QUALIFIER_TEMP_1__'')],
      [(''__GO_QUALIFIER_TEMP_0__'', ''pkg/ab''), (''__GO_QUALIFIER_TEMP_1__'', ''pkg/a'')])"
  by code_simp+

lemma lenDesc_two: "lenDesc [a, b] \<longleftrightarrow> length b \<le> length a"
  by (simp add: lenDesc_def)

lemma lenDesc_two_cases:
  assumes "mset xs = {#a, b#}" and "lenDesc xs" and "length a < length b"
  shows "xs = [b, a]"
proof -
  from assms(1) have "xs = [a, b] \<or> xs = [b, a]" by (rule mset_two_cases)
  then show ?thesis
  proof
    assume "xs = [a, b]"
    with assms(2,3) show ?thesis by (simp add: lenDesc_two)
  qed
qed

lemma c1_pass1:
  "replacePass [(''a'', ''__GO_QUALIFIER_TEMP_0__''), (''ab'', ''__GO_QUALIFIER_TEMP_1__'')]
     [''ab'', ''a''] ''ab.Foo(); a.Bar()'' = ''__GO_QUALIFIER_TEMP_1__.Foo(); __GO_QUALIFIER_TEMP_0__.Bar()''"
  "replacePass [(''ab'', ''__GO_QUALIFIER_TEMP_0__''), (''a'', ''__GO_QUALIFIER_TEMP_1__'')]
     [''ab'', ''a''] ''ab.Foo(); a.Bar()'' = ''__GO_QUALIFIER_TEMP_0__.Foo(); __GO_QUALIFIER_TEMP_1__.Bar()''"
  by code_simp+

lemma c1_pass2:
  "replacePass [(''__GO_QUALIFIER_TEMP_0__'', ''pkg/a''), (''__GO_QUALIFIER_TEMP_1__'', ''pkg/ab'')]
     [''__GO_QUALIFIER_TEMP_0__'', ''__GO_QUALIFIER_TEMP_1__'']
     ''__GO_QUALIFIER_TEMP_1__.Foo(); __GO_QUALIFIER_TEMP_0__.Bar()'' = ''pkg/ab.Foo(); pkg/a.Bar()''"
  "replacePass [(''__GO_QUALIFIER_TEMP_0__'', ''pkg/a''), (''__GO_QUALIFIER_TEMP_1__'', ''pkg/ab'')]
     [''__GO_QUALIFIER_TEMP_1__'', ''__GO_QUALIFIER_TEMP_0__'']
     ''__GO_QUALIFIER_TEMP_1__.Foo(); __GO_QUALIFIER_TEMP_0__.Bar()'' = ''pkg/ab.Foo(); pkg/a.Bar()''"
  "replacePass [(''__GO_QUALIFIER_TEMP_0__'', ''pkg/ab''), (''__GO_QUALIFIER_TEMP_1__'', ''pkg/a'')]
     [''__GO_QUALIFIER_TEMP_0__'', ''__GO_QUALIFIER_TEMP_1__'']
     ''__GO_QUALIFIER_TEMP_0__.Foo(); __GO_QUALIFIER_TEMP_1__.Bar()'' = ''pkg/ab.Foo(); pkg/a.Bar()''"
  "replacePass [(''__GO_QUALIFIER_TEMP_0__'', ''pkg/ab''), (''__GO_QUALIFIER_TEMP_1__'', ''pkg/a'')]
     [''__GO_QUALIFIER_TEMP_1__'', ''__GO_QUALIFIER_TEMP_0__'']
     ''__GO_QUALIFIER_TEMP_0__.Foo(); __GO_QUALIFIER_TEMP_1__.Bar()'' = ''pkg/ab.Foo(); pkg/a.Bar()''"
  by code_simp+

lemma c1_single:
  "replacePass [(''a'', ''pkg/a''), (''ab'', ''pkg/ab'')] [''ab'', ''a''] ''ab.Foo(); a.Bar()'' = ''pkg/ab.Foo(); pkg/a.Bar()''"
  "replacePass [(''ab'', ''pkg/ab''), (''a'', ''pkg/a'')] [''ab'', ''a''] ''ab.Foo(); a.Bar()'' = ''pkg/ab.Foo(); pkg/a.Bar()''"
  by code_simp+

lemma c1_twoPass:
  assumes v: "validScheduler sch"
    and m: "mset m = {#(''a'', ''pkg/a''), (''ab'', ''pkg/ab'')#}"
  shows "twoPassReplace sch m ''ab.Foo(); a.Bar()'' = ''pkg/ab.Foo(); pkg/a.Bar()''"
proof -
  have "mset (rangeReplacements sch m) = {#(''a'', ''pkg/a''), (''ab'', ''pkg/ab'')#}"
    using v m by (simp add: sched_range)
  then have "rangeReplacements sch m = [(''a'', ''pkg/a''), (''ab'', ''pkg/ab'')] \<or>
      rangeReplacements sch m = [(''ab'', ''pkg/ab''), (''a'', ''pkg/a'')]"
    by (rule mset_two_cases)
  then show ?thesis
  proof (elim disjE)
    assume A: "rangeReplacements sch m = [(''a'', ''pkg/a''), (''ab'', ''pkg/ab'')]"
    let ?t = "[(''a'', ''__GO_QUALIFIER_TEMP_0__''), (''ab'', ''__GO_QUALIFIER_TEMP_1__'')]"
    let ?f = "[(''__GO_QUALIFIER_TEMP_0__'', ''pkg/a''), (''__GO_QUALIFIER_TEMP_1__'', ''pkg/ab'')]"
    have u: "twoPassReplace sch m ''ab.Foo(); a.Bar()'' =
        replacePass ?f (sortPlaceholders sch (map fst (rangeFinalMap sch ?f)))
          (replacePass ?t (sortQualifiers sch (map fst (rangeTempMap sch ?t))) ''ab.Foo(); a.Bar()'')"
      by (rule twoPassReplace_unfold) (simp only: A c1_assign)
    have "mset (sortQualifiers sch (map fst (rangeTempMap sch ?t))) = {#''a'', ''ab''#}"
      using sched_qualifiers[OF v, of ?t] by simp
    moreover have "lenDesc (sortQualifiers sch (map fst (rangeTempMap sch ?t)))"
      using v by (rule sched_sort)
    ultimately have q: "sortQualifiers sch (map fst (rangeTempMap sch ?t)) = [''ab'', ''a'']"
      by (rule lenDesc_two_cases) simp
    have "mset (sortPlaceholders sch (map fst (rangeFinalMap sch ?f))) =
        {#''__GO_QUALIFIER_TEMP_0__'', ''__GO_QUALIFIER_TEMP_1__''#}"
      using sched_placeholders[OF v, of ?f] by simp
    then have "sortPlaceholders sch (map fst (rangeFinalMap sch ?f)) =
          [''__GO_QUALIFIER_TEMP_0__'', ''__GO_QUALIFIER_TEMP_1__''] \<or>
        sortPlaceholders sch (map fst (rangeFinalMap sch ?f)) =
          [''__GO_QUALIFIER_TEMP_1__'', ''__GO_QUALIFIER_TEMP_0__'']"
      by (rule mset_two_cases)
    then show ?thesis
      by (elim disjE) (simp_all only: u q c1_pass1 c1_pass2)
  next
    assume B: "rangeReplacements sch m = [(''ab'', ''pkg/ab''), (''a'', ''pkg/a'')]"
    let ?t = "[(''ab'', ''__GO_QUALIFIER_TEMP_0__''), (''a'', ''__GO_QUALIFIER_TEMP_1__'')]"
    let ?f = "[(''__GO_QUALIFIER_TEMP_0__'', ''pkg/ab''), (''__GO_QUALIFIER_TEMP_1__'', ''pkg/a'')]"
    have u: "twoPassReplace sch m ''ab.Foo(); a.Bar()'' =
        replacePass ?f (sortPlaceholders sch (map fst (rangeFinalMap sch ?f)))
          (replacePass ?t (sortQualifiers sch (map fst (rangeTempMap sch ?t))) ''ab.Foo(); a.Bar()'')"
      by (rule twoPassReplace_unfold) (simp only: B c1_assign)
    have "mset (sortQualifiers sch (map fst (rangeTempMap sch ?t))) = {#''a'', ''ab''#}"
      using sched_qualifiers[OF v, of ?t] by simp
    moreover have "lenDesc (sortQualifiers sch (map fst (rangeTempMap sch ?t)))"
      using v by (rule sched_sort)
    ultimately have q: "sortQualifiers sch (map fst (rangeTempMap sch ?t)) = [''ab'', ''a'']"
      by (rule lenDesc_two_cases) simp
    have "mset (sortPlaceholders sch (map fst (rangeFinalMap sch ?f))) =
        {#''__GO_QUALIFIER_TEMP_0__'', ''__GO_QUALIFIER_TEMP_1__''#}"
      using sched_placeholders[OF v, of ?f] by simp
    then have "sortPlaceholders sch (map fst (rangeFinalMap sch ?f)) =
          [''__GO_QUALIFIER_TEMP_0__'', ''__GO_QUALIFIER_TEMP_1__''] \<or>
        sortPlaceholders sch (map fst (rangeFinalMap sch ?f)) =
          [''__GO_QUALIFIER_TEMP_1__'', ''__GO_QUALIFIER_TEMP_0__'']"
      by (rule mset_two_cases)
    then show ?thesis
      by (elim disjE) (simp_all only: u q c1_pass1 c1_pass2)
  qed
qed


lemma collectReplacements_Nil [simp]: "collectReplacements NilNode ti = []"
  by (simp add: collectReplacements_def)

lemma c1_singlePass:
  assumes v: "validScheduler sch"
    and m: "mset m = {#(''a'', ''pkg/a''), (''ab'', ''pkg/ab'')#}"
  shows "singlePassReplace sch m ''ab.Foo(); a.Bar()'' = ''pkg/ab.Foo(); pkg/a.Bar()''"
proof -
  have "mset (map fst (rangeReplacements sch m)) = {#''a'', ''ab''#}"
    using v m by (simp add: sched_range)
  then have "mset (sortQualifiers sch (map fst (rangeReplacements sch m))) = {#''a'', ''ab''#}"
    using v by (simp add: sched_sort)
  moreover have "lenDesc (sortQualifiers sch (map fst (rangeReplacements sch m)))"
    using v by (rule sched_sort)
  ultimately have q: "sortQualifiers sch (map fst (rangeReplacements sch m)) = [''ab'', ''a'']"
    by (rule lenDesc_two_cases) simp
  from m have "m = [(''a'', ''pkg/a''), (''ab'', ''pkg/ab'')] \<or>
      m = [(''ab'', ''pkg/ab''), (''a'', ''pkg/a'')]"
    by (rule mset_two_cases)
  then have "replacePass m [''ab'', ''a''] ''ab.Foo(); a.Bar()'' = ''pkg/ab.Foo(); pkg/a.Bar()''"
    by (elim disjE) (simp_all only: c1_single)
  then show ?thesis
    by (simp only: singlePassReplace_def q)
qed

text \<open>
  C1. With the alias map \<open>{a \<mapsto> pkg/a, ab \<mapsto> pkg/ab}\<close> collected from the declaration,
  the text \<open>ab.Foo(); a.Bar()\<close> becomes exactly \<open>pkg/ab.Foo(); pkg/a.Bar()\<close>, whatever
  order the maps are iterated in and however the sorts break ties: by the two passes of
  allsymbols.go and by the single pass of go\_ast\_parser.go.
\<close>

theorem C1_longer_alias_not_consumed:
  assumes "validScheduler sch"
    and "mset (collectReplacements n ti) = {#(''a'', ''pkg/a''), (''ab'', ''pkg/ab'')#}"
  shows "applyQualifierReplacements sch ''ab.Foo(); a.Bar()'' n (Some ti) = ''pkg/ab.Foo(); pkg/a.Bar()''
    \<and> applyQualifierReplacementsV1 sch ''ab.Foo(); a.Bar()'' n ti = ''pkg/ab.Foo(); pkg/a.Bar()''"
proof -
  from assms(2) have ne: "collectReplacements n ti \<noteq> []" by auto
  then have "n \<noteq> NilNode" by auto
  with ne have "applyQualifierReplacements sch ''ab.Foo(); a.Bar()'' n (Some ti) =
      twoPassReplace sch (collectReplacements n ti) ''ab.Foo(); a.Bar()''"
    by (simp add: applyQualifierReplacements_def Let_def)
  then show ?thesis
    using c1_twoPass[OF assms] c1_singlePass[OF assms]
    by (simp only: applyQualifierReplacementsV1_def simp_thms)
qed

lemma collect_twoAlias:
  "collectReplacements twoAliasBlock twoAliasInfo = [(''ab'', ''pkg/ab''), (''a'', ''pkg/a'')]"
  by code_simp

theorem C1_longer_alias_not_consumed_witness:
  "validScheduler fifoScheduler
   \<and> mset (collectReplacements twoAliasBlock twoAliasInfo) = {#(''a'', ''pkg/a''), (''ab'', ''pkg/ab'')#}
   \<and> applyQualifierReplacements fifoScheduler ''ab.Foo(); a.Bar()'' twoAliasBlock (Some twoAliasInfo)
       = ''pkg/ab.Foo(); pkg/a.Bar()''
   \<and> applyQualifierReplacementsV1 fifoScheduler ''ab.Foo(); a.Bar()'' twoAliasBlock twoAliasInfo
       = ''pkg/ab.Foo(); pkg/a.Bar()''"
proof -
  have m: "mset (collectReplacements twoAliasBlock twoAliasInfo) =
      {#(''a'', ''pkg/a''), (''ab'', ''pkg/ab'')#}"
    by (simp add: collect_twoAlias)
  show ?thesis
    using C1_longer_alias_not_consumed[OF validScheduler_fifo m] validScheduler_fifo m by simp
qed

section \<open>An alias that also ends another qualified name\<close>

lemma twoPassReplace_single:
  assumes v: "validScheduler sch" and m: "mset m = {#(k, p)#}"
  shows "twoPassReplace sch m c =
    replacePass [(placeholder 0, p)] [placeholder 0] (replacePass [(k, placeholder 0)] [k] c)"
proof -
  have "mset (rangeReplacements sch m) = {#(k, p)#}"
    using v m by (simp add: sched_range)
  then have "rangeReplacements sch m = [(k, p)]" by (rule mset_one_case)
  then have a: "assignPlaceholders (rangeReplacements sch m) 0 ([], []) =
      ([(k, placeholder 0)], [(placeholder 0, p)])" by simp
  have "mset (sortQualifiers sch (map fst (rangeTempMap sch [(k, placeholder 0)]))) = {#k#}"
    using sched_qualifiers[OF v, of "[(k, placeholder 0)]"] by simp
  then have q: "sortQualifiers sch (map fst (rangeTempMap sch [(k, placeholder 0)])) = [k]"
    by (rule mset_one_case)
  have "mset (sortPlaceholders sch (map fst (rangeFinalMap sch [(placeholder 0, p)]))) =
      {#placeholder 0#}"
    using sched_placeholders[OF v, of "[(placeholder 0, p)]"] by simp
  then have r: "sortPlaceholders sch (map fst (rangeFinalMap sch [(placeholder 0, p)])) =
      [placeholder 0]"
    by (rule mset_one_case)
  show ?thesis
    by (simp only: twoPassReplace_unfold[OF a] q r)
qed

lemma c2_eval:
  "replacePass [(placeholder 0, ''company/x'')] [placeholder 0]
     (replacePass [(''x'', placeholder 0)] [''x''] ''x.Use(company.x.Other)'') =
   ''company/x.Use(company.company/x.Other)''"
  by code_simp

lemma collect_xUse: "collectReplacements xUseCall xUseInfo = [(''x'', ''company/x'')]"
  by code_simp

text \<open>
  C2, as stated, fails: the replacement is textual, so the \<open>x.\<close> inside
  \<open>company.x.Other\<close> is rewritten too.
\<close>

theorem C2_preexisting_name_rewritten:
  "collectReplacements xUseCall xUseInfo = [(''x'', ''company/x'')]
   \<and> applyQualifierReplacements fifoScheduler ''x.Use(company.x.Other)'' xUseCall (Some xUseInfo)
       = ''company/x.Use(company.company/x.Other)''
   \<and> applyQualifierReplacements fifoScheduler ''x.Use(company.x.Other)'' xUseCall (Some xUseInfo)
       \<noteq> ''company/x.Use(company.x.Other)''"
  by code_simp

text \<open>
  C2, amended. With the alias map \<open>{x \<mapsto> company/x}\<close> collected from the declaration,
  every occurrence of \<open>x.\<close> in \<open>x.Use(company.x.Other)\<close> is rewritten, the one that ends
  \<open>company.x.\<close> included: the output is \<open>company/x.Use(company.company/x.Other)\<close>
  under every scheduler.
\<close>

theorem C2_every_occurrence_rewritten:
  assumes "validScheduler sch"
    and "mset (collectReplacements n ti) = {#(''x'', ''company/x'')#}"
  shows "applyQualifierReplacements sch ''x.Use(company.x.Other)'' n (Some ti) =
    ''company/x.Use(company.company/x.Other)''"
proof -
  from assms(2) have ne: "collectReplacements n ti \<noteq> []" by auto
  then have "n \<noteq> NilNode" by auto
  with ne have "applyQualifierReplacements sch ''x.Use(company.x.Other)'' n (Some ti) =
      twoPassReplace sch (collectReplacements n ti) ''x.Use(company.x.Other)''"
    by (simp add: applyQualifierReplacements_def Let_def)
  then show ?thesis
    by (simp only: twoPassReplace_single[OF assms] c2_eval)
qed

theorem C2_every_occurrence_rewritten_witness:
  "validScheduler lifoScheduler
   \<and> mset (collectReplacements xUseCall xUseInfo) = {#(''x'', ''company/x'')#}
   \<and> applyQualifierReplacements lifoScheduler ''x.Use(company.x.Other)'' xUseCall (Some xUseInfo)
       = ''company/x.Use(company.company/x.Other)''"
proof -
  have m: "mset (collectReplacements xUseCall xUseInfo) = {#(''x'', ''company/x'')#}"
    by (simp add: collect_xUse)
  show ?thesis
    using C2_every_occurrence_rewritten[OF validScheduler_lifo m] validScheduler_lifo m by simp
qed

section \<open>Texts without alias or placeholder tokens\<close>

lemma ReplaceAll_absent:
  "old \<noteq> [] \<Longrightarrow> \<not> sublist old s \<Longrightarrow> ReplaceAll s old new = s"
  by (induction s) (auto simp: sublist_Cons_right)

lemma replacePass_absent:
  "\<forall>k\<in>set keys. \<not> sublist (k @ ''.'') c \<Longrightarrow> replacePass m keys c = c"
  unfolding replacePass_def
  by (induction keys) (simp_all add: ReplaceAll_absent)

lemma assignPlaceholders_keys:
  "assignPlaceholders xs i (t, f) = (t', f') \<Longrightarrow>
     fst ` set t' = fst ` set t \<union> fst ` set xs \<and>
     fst ` set f' = fst ` set f \<union> placeholder ` {i ..< i + int (length xs)}"
proof (induction xs arbitrary: i t f)
  case Nil
  then show ?case by simp
next
  case (Cons x xs)
  obtain q p where x: "x = (q, p)" by (cases x)
  have "{i ..< i + int (length (x # xs))} = insert i {i + 1 ..< i + 1 + int (length xs)}"
    by auto
  with Cons.IH[of "i + 1" "AList.update q (placeholder i) t" "AList.update (placeholder i) p f"]
    Cons.prems
  show ?case
    by (simp add: x dom_update)
qed

lemma twoPassReplace_absent:
  assumes v: "validScheduler sch"
    and a: "\<not> mentionsAlias m c"
    and p: "\<not> mentionsPlaceholder (length m) c"
  shows "twoPassReplace sch m c = c"
proof -
  obtain t f where tf: "assignPlaceholders (rangeReplacements sch m) 0 ([], []) = (t, f)"
    by (cases "assignPlaceholders (rangeReplacements sch m) 0 ([], [])")
  have perm: "mset (rangeReplacements sch m) = mset m"
    using v by (rule sched_range)
  then have len: "length (rangeReplacements sch m) = length m"
    by (rule mset_eq_length)
  from perm have st: "set (rangeReplacements sch m) = set m"
    by (rule mset_eq_setD)
  from assignPlaceholders_keys[OF tf]
  have kt: "fst ` set t = fst ` set m"
    and kf: "fst ` set f = placeholder ` {0 ..< int (length m)}"
    by (simp_all add: len st)
  have "set (sortQualifiers sch (map fst (rangeTempMap sch t))) = set (map fst t)"
    using sched_qualifiers[OF v, of t] by (rule mset_eq_setD)
  then have "set (sortQualifiers sch (map fst (rangeTempMap sch t))) = fst ` set t"
    by simp
  with a kt have 1: "\<forall>k\<in>set (sortQualifiers sch (map fst (rangeTempMap sch t))).
      \<not> sublist (k @ ''.'') c"
    by (auto simp: mentionsAlias_def list_ex_iff)
  have "set (sortPlaceholders sch (map fst (rangeFinalMap sch f))) = set (map fst f)"
    using sched_placeholders[OF v, of f] by (rule mset_eq_setD)
  then have "set (sortPlaceholders sch (map fst (rangeFinalMap sch f))) = fst ` set f"
    by simp
  moreover have "\<not> sublist (placeholder i @ ''.'') c" if "0 \<le> i" "i < int (length m)" for i
  proof -
    from that have i: "nat i < length m" "int (nat i) = i" by auto
    from p have "\<not> sublist (placeholder (int j) @ ''.'') c" if "j < length m" for j
      using that by (auto simp: mentionsPlaceholder_def list_ex_iff)
    from this[OF i(1)] show ?thesis unfolding i(2) .
  qed
  ultimately have 2: "\<forall>k\<in>set (sortPlaceholders sch (map fst (rangeFinalMap sch f))).
      \<not> sublist (k @ ''.'') c"
    using kf by auto
  show ?thesis
    by (simp only: twoPassReplace_unfold[OF tf] replacePass_absent[OF 1] replacePass_absent[OF 2])
qed

lemma applyQualifierReplacements_absent:
  assumes "validScheduler sch"
    and "\<not> mentionsAlias (collectReplacements n ti) c"
    and "\<not> mentionsPlaceholder (length (collectReplacements n ti)) c"
  shows "applyQualifierReplacements sch c n (Some ti) = c"
  using twoPassReplace_absent[OF assms]
  by (simp add: applyQualifierReplacements_def Let_def)

section \<open>What the collection records\<close>


lemma update_entry:
  "(k, p) \<in> set (AList.update k' v al) \<Longrightarrow> (k, p) \<in> set al \<or> (k = k' \<and> p = v)"
  by (induction al) (auto split: if_splits)

lemma visitNode_other: "(\<nexists>y sel. x = SelectorExpr y sel) \<Longrightarrow> visitNode ti m x = m"
  by (cases x) (simp_all add: visitNode_def)

lemma visitNode_selector_other:
  "(\<nexists>k i. y = Ident k i) \<Longrightarrow> visitNode ti m (SelectorExpr y sel) = m"
  by (cases y) (simp_all add: visitNode_def)

lemma visitNode_selector_ident:
  "visitNode ti m (SelectorExpr (Ident k i) sel) =
     (case Uses ti i of
        None \<Rightarrow> m
      | Some obj \<Rightarrow>
          (case obj of
             PkgName path \<Rightarrow> if k \<noteq> path then AList.update k path m else m
           | OtherObject \<Rightarrow> m))"
  by (simp add: visitNode_def)

lemma visitNode_entries:
  assumes "(k, p) \<in> set (visitNode ti m x)"
  shows "(k, p) \<in> set m \<or>
     (\<exists>i sel. x = SelectorExpr (Ident k i) sel \<and> Uses ti i = Some (PkgName p) \<and> k \<noteq> p)"
proof (cases "\<exists>y sel. x = SelectorExpr y sel")
  case False
  with assms show ?thesis by (simp add: visitNode_other)
next
  case True
  then obtain y sel where x: "x = SelectorExpr y sel" by blast
  show ?thesis
  proof (cases "\<exists>k' i. y = Ident k' i")
    case False
    with assms x show ?thesis by (simp add: visitNode_selector_other)
  next
    case True
    then obtain k' i where y: "y = Ident k' i" by blast
    from assms show ?thesis
      unfolding x y visitNode_selector_ident
      by (auto split: option.splits object.splits if_splits dest: update_entry)
  qed
qed

lemma foldl_visitNode_entries:
  "(k, p) \<in> set (foldl (visitNode ti) m xs) \<Longrightarrow>
     (k, p) \<in> set m \<or>
     (\<exists>i sel. SelectorExpr (Ident k i) sel \<in> set xs \<and> Uses ti i = Some (PkgName p) \<and> k \<noteq> p)"
proof (induction xs arbitrary: m)
  case Nil
  then show ?case by simp
next
  case (Cons x xs)
  from Cons.IH[of "visitNode ti m x"] Cons.prems
  have "(k, p) \<in> set (visitNode ti m x) \<or>
     (\<exists>i sel. SelectorExpr (Ident k i) sel \<in> set xs \<and> Uses ti i = Some (PkgName p) \<and> k \<noteq> p)"
    by simp
  then show ?case
    using visitNode_entries[of k p ti m x] by auto
qed

lemma collectReplacements_entries:
  "(k, p) \<in> set (collectReplacements n ti) \<Longrightarrow>
     \<exists>i sel. SelectorExpr (Ident k i) sel \<in> set (Inspect n) \<and> Uses ti i = Some (PkgName p) \<and> k \<noteq> p"
  using foldl_visitNode_entries[of k p ti "[]" "Inspect n"]
  by (simp add: collectReplacements_def)

lemma visitNode_keys_mono: "fst ` set m \<subseteq> fst ` set (visitNode ti m x)"
proof (cases "\<exists>k i sel. x = SelectorExpr (Ident k i) sel")
  case True
  then obtain k i sel where "x = SelectorExpr (Ident k i) sel" by blast
  then show ?thesis
    by (auto simp: visitNode_selector_ident dom_update split: option.splits object.splits)
next
  case False
  then have "visitNode ti m x = m"
    by (metis visitNode_other visitNode_selector_other)
  then show ?thesis by simp
qed

lemma foldl_visitNode_keys_mono: "fst ` set m \<subseteq> fst ` set (foldl (visitNode ti) m xs)"
proof (induction xs arbitrary: m)
  case Nil
  then show ?case by simp
next
  case (Cons x xs)
  from visitNode_keys_mono[of m ti x] Cons.IH[of "visitNode ti m x"]
  show ?case by auto
qed

lemma foldl_visitNode_complete:
  assumes "SelectorExpr (Ident k i) sel \<in> set xs" and "Uses ti i = Some (PkgName p)" and "k \<noteq> p"
  shows "k \<in> fst ` set (foldl (visitNode ti) m xs)"
  using assms(1)
proof (induction xs arbitrary: m)
  case Nil
  then show ?case by simp
next
  case (Cons x xs)
  show ?case
  proof (cases "x = SelectorExpr (Ident k i) sel")
    case True
    then have "k \<in> fst ` set (visitNode ti m x)"
      using assms(2,3) by (simp add: visitNode_selector_ident dom_update)
    then show ?thesis
      using foldl_visitNode_keys_mono[of "visitNode ti m x" ti xs] by auto
  next
    case False
    with Cons.prems have "SelectorExpr (Ident k i) sel \<in> set xs" by simp
    from Cons.IH[OF this] show ?thesis by simp
  qed
qed

lemma collectReplacements_keys:
  "fst ` set (collectReplacements n ti) =
     {k. \<exists>i sel p. SelectorExpr (Ident k i) sel \<in> set (Inspect n) \<and>
            Uses ti i = Some (PkgName p) \<and> k \<noteq> p}"
proof (intro set_eqI iffI)
  fix k
  assume "k \<in> fst ` set (collectReplacements n ti)"
  then obtain p where "(k, p) \<in> set (collectReplacements n ti)" by auto
  from collectReplacements_entries[OF this]
  show "k \<in> {k. \<exists>i sel p. SelectorExpr (Ident k i) sel \<in> set (Inspect n) \<and>
            Uses ti i = Some (PkgName p) \<and> k \<noteq> p}" by blast
next
  fix k
  assume "k \<in> {k. \<exists>i sel p. SelectorExpr (Ident k i) sel \<in> set (Inspect n) \<and>
            Uses ti i = Some (PkgName p) \<and> k \<noteq> p}"
  then show "k \<in> fst ` set (collectReplacements n ti)"
    unfolding collectReplacements_def using foldl_visitNode_complete by blast
qed

text \<open>The type parameters of a declaration are part of the subtree that is inspected.\<close>

lemma type_parameters_inspected:
  "collectReplacements maxDeclNode maxDeclInfo =
     [(''constraints'', ''golang.org/x/exp/constraints'')]
   \<and> applyQualifierReplacements fifoScheduler
        ''func Max[T constraints.Ordered](a, b T) T { return a }'' maxDeclNode (Some maxDeclInfo) =
      ''func Max[T golang.org/x/exp/constraints.Ordered](a, b T) T { return a }''"
  by code_simp

section \<open>Applying the canonicalization twice\<close>

text \<open>
  C4, as stated, fails: the canonical path \<open>net/http\<close> ends in the alias \<open>http\<close>, so
  the canonical text still contains \<open>http.\<close> and a second application rewrites it again.
\<close>

theorem C4_second_application_rewrites_again:
  "applyQualifierReplacements fifoScheduler ''http.Get(u)'' httpCall (Some httpGetInfo)
     = ''net/http.Get(u)''
   \<and> applyQualifierReplacements fifoScheduler
        (applyQualifierReplacements fifoScheduler ''http.Get(u)'' httpCall (Some httpGetInfo))
        httpCall (Some httpGetInfo)
     = ''net/net/http.Get(u)''
   \<and> applyQualifierReplacements fifoScheduler
        (applyQualifierReplacements fifoScheduler ''http.Get(u)'' httpCall (Some httpGetInfo))
        httpCall (Some httpGetInfo)
     \<noteq> applyQualifierReplacements fifoScheduler ''http.Get(u)'' httpCall (Some httpGetInfo)"
  by code_simp

text \<open>
  C4, amended. A second application, with the same declaration subtree and resolved-symbol
  index and under any scheduler, returns the canonical text unchanged whenever no alias
  token and no placeholder token (the name followed by a dot) remains in that text; without
  resolved-symbol index both applications return the text as it is.
\<close>

theorem C4_idempotent_when_no_token_remains:
  assumes "validScheduler sch" and "validScheduler sch'"
    and "c' = applyQualifierReplacements sch c n (Some ti)"
    and "\<not> mentionsAlias (collectReplacements n ti) c'"
    and "\<not> mentionsPlaceholder (length (collectReplacements n ti)) c'"
  shows "applyQualifierReplacements sch' c' n (Some ti) = c'
    \<and> applyQualifierReplacements sch' (applyQualifierReplacements sch c n None) n None =
        applyQualifierReplacements sch c n None"
  using applyQualifierReplacements_absent[OF assms(2,4,5)]
  by (simp add: applyQualifierReplacements_def)

lemma c4_first: "applyQualifierReplacements fifoScheduler ''h.Get(u)'' hGetCall (Some hGetInfo) =
    ''net/http.Get(u)''"
  by code_simp

theorem C4_idempotent_when_no_token_remains_witness:
  "validScheduler fifoScheduler \<and> validScheduler lifoScheduler
   \<and> ''net/http.Get(u)'' = applyQualifierReplacements fifoScheduler ''h.Get(u)'' hGetCall (Some hGetInfo)
   \<and> \<not> mentionsAlias (collectReplacements hGetCall hGetInfo) ''net/http.Get(u)''
   \<and> \<not> mentionsPlaceholder (length (collectReplacements hGetCall hGetInfo)) ''net/http.Get(u)''
   \<and> applyQualifierReplacements lifoScheduler ''net/http.Get(u)'' hGetCall (Some hGetInfo) =
        ''net/http.Get(u)''"
proof -
  have a: "\<not> mentionsAlias (collectReplacements hGetCall hGetInfo) ''net/http.Get(u)''"
    by code_simp
  have p: "\<not> mentionsPlaceholder (length (collectReplacements hGetCall hGetInfo)) ''net/http.Get(u)''"
    by code_simp
  from C4_idempotent_when_no_token_remains[OF validScheduler_fifo validScheduler_lifo
      c4_first[symmetric] a p]
  have "applyQualifierReplacements lifoScheduler ''net/http.Get(u)'' hGetCall (Some hGetInfo) =
        ''net/http.Get(u)''" by blast
  with a p c4_first validScheduler_fifo validScheduler_lifo show ?thesis by simp
qed

section \<open>The rendering of a type always produces a string\<close>

lemma getTypeString_total:
  "getTypeString_fieldStrings_getSignature_dom (Inl (fprint, expr, ti))"
  "getTypeString_fieldStrings_getSignature_dom (Inr (Inl (fprint, fs, ti)))"
  "getTypeString_fieldStrings_getSignature_dom (Inr (Inr (fprint, ps, rs, ti)))"
  by (induct fprint expr ti and fprint fs ti and fprint ps rs ti
      rule: getTypeString_fieldStrings_getSignature.induct)
    (auto intro: getTypeString_fieldStrings_getSignature.domintros)

lemma getTypeString_resolved:
  "typeOf ti expr = Some tv \<Longrightarrow> getTypeString fprint expr ti = tv"
  by simp

lemma getTypeString_fallback:
  "typeOf ti expr = None \<Longrightarrow> noCaseMatches expr \<Longrightarrow>
     getTypeString fprint expr ti = (case fprint expr of Some s \<Rightarrow> s | None \<Rightarrow> typeTag expr)"
  by (cases expr) (simp_all split: option.splits)

lemma getTypeString_unresolved:
  assumes "typeOf ti expr = None"
  shows "expr = Ident name i \<Longrightarrow> getTypeString fprint expr ti = name"
    and "expr = StarExpr x \<Longrightarrow> getTypeString fprint expr ti = ''*'' @ getTypeString fprint x ti"
    and "expr = ArrayType len elt \<Longrightarrow>
      getTypeString fprint expr ti = ''[]'' @ getTypeString fprint elt ti"
    and "expr = MapType k v \<Longrightarrow>
      getTypeString fprint expr ti =
        ''map['' @ getTypeString fprint k ti @ '']'' @ getTypeString fprint v ti"
    and "expr = InterfaceType ms \<Longrightarrow> getTypeString fprint expr ti = ''interface{}''"
    and "expr = ChanType SEND v \<Longrightarrow>
      getTypeString fprint expr ti = ''chan<- '' @ getTypeString fprint v ti"
    and "expr = ChanType RECV v \<Longrightarrow>
      getTypeString fprint expr ti = ''<-chan '' @ getTypeString fprint v ti"
    and "expr = ChanType SENDRECV v \<Longrightarrow>
      getTypeString fprint expr ti = ''chan '' @ getTypeString fprint v ti"
    and "expr = Ellipsis elt \<Longrightarrow>
      getTypeString fprint expr ti = ''...'' @ getTypeString fprint elt ti"
    and "expr = FuncType tps ps rs \<Longrightarrow>
      getTypeString fprint expr ti = ''func'' @ getSignature fprint ps rs ti"
  using assms by simp_all

lemma getTypeString_selector:
  assumes "typeOf ti (SelectorExpr x sel) = None"
  shows "x = Ident q i \<Longrightarrow> Uses ti i = Some (PkgName path) \<Longrightarrow>
      getTypeString fprint (SelectorExpr x sel) ti = path @ ''.'' @ sel"
    and "(\<And>q i path. x = Ident q i \<Longrightarrow> Uses ti i \<noteq> Some (PkgName path)) \<Longrightarrow>
      getTypeString fprint (SelectorExpr x sel) ti = getTypeString fprint x ti @ ''.'' @ sel"
proof -
  show "getTypeString fprint (SelectorExpr x sel) ti = path @ ''.'' @ sel"
    if "x = Ident q i" "Uses ti i = Some (PkgName path)"
    using assms that by (simp add: pkgPathOf_def)
  show "getTypeString fprint (SelectorExpr x sel) ti = getTypeString fprint x ti @ ''.'' @ sel"
    if h: "\<And>q i path. x = Ident q i \<Longrightarrow> Uses ti i \<noteq> Some (PkgName path)"
  proof -
    have "pkgPathOf ti x = None"
      using h by (cases x) (auto simp: pkgPathOf_def split: option.splits object.splits)
    with assms show ?thesis by simp
  qed
qed

lemma noCaseMatches_iff:
  "noCaseMatches expr \<longleftrightarrow>
     expr = NilNode \<or> (\<exists>fs. expr = StructType fs) \<or> (\<exists>fs. expr = FieldList fs)
       \<or> (\<exists>v i. expr = BasicLit v i) \<or> (\<exists>tag children. expr = OtherNode tag children)"
  by (cases expr) simp_all

lemma typeTag_nonempty: "typeTag expr = [] \<Longrightarrow> \<exists>children. expr = OtherNode [] children"
  by (cases expr) simp_all

lemma getTypeString_empty:
  assumes "getTypeString fprint expr ti = []"
  shows "typeOf ti expr = Some [] \<or> (\<exists>i. expr = Ident [] i)
     \<or> (noCaseMatches expr \<and> (fprint expr = Some [] \<or> fprint expr = None \<and> typeTag expr = []))"
proof (cases "typeOf ti expr")
  case (Some tv)
  with assms show ?thesis by simp
next
  case None
  with assms show ?thesis
    by (cases expr) (auto split: option.splits chanDir.splits)
qed

lemma printer_only_when_no_case_matches_aux:
  "(\<forall>n. noCaseMatches n \<longrightarrow> fprint n = fprint' n) \<longrightarrow>
     getTypeString fprint expr ti = getTypeString fprint' expr ti"
  "(\<forall>n. noCaseMatches n \<longrightarrow> fprint n = fprint' n) \<longrightarrow>
     fieldStrings fprint fs ti = fieldStrings fprint' fs ti"
  "(\<forall>n. noCaseMatches n \<longrightarrow> fprint n = fprint' n) \<longrightarrow>
     getSignature fprint ps rs ti = getSignature fprint' ps rs ti"
proof (induct fprint expr ti and fprint fs ti and fprint ps rs ti
      rule: getTypeString_fieldStrings_getSignature.induct)
  case (1 fprint expr ti)
  show ?case
  proof
    assume h: "\<forall>n. noCaseMatches n \<longrightarrow> fprint n = fprint' n"
    show "getTypeString fprint expr ti = getTypeString fprint' expr ti"
    proof (cases "typeOf ti expr")
      case (Some tv)
      then show ?thesis by simp
    next
      case None
      with 1 h show ?thesis
        by (cases expr) (simp_all split: option.splits)
    qed
  qed
next
  case (2 fprint ti)
  show ?case by simp
next
  case (3 fprint names ty rest ti)
  then show ?case by simp
next
  case (4 fprint params results ti)
  then show ?case by simp
qed

lemma printer_only_when_no_case_matches:
  assumes "\<And>n. noCaseMatches n \<Longrightarrow> fprint n = fprint' n"
  shows "getTypeString fprint expr ti = getTypeString fprint' expr ti"
  using assms printer_only_when_no_case_matches_aux(1)[of fprint fprint' expr ti] by blast

text \<open>
  C9. \<open>getTypeString\<close> terminates on every expression, and \<open>getSignature\<close> on every
  function type (every argument is in the domain of the recursion they share), so a string
  is always returned. It is the resolved type when there is one. Otherwise it is the
  syntactic reconstruction, case by case: the name of an identifier, \<open>*\<close>, \<open>[]\<close>,
  \<open>map[K]V\<close>, the import path or the rendered operand before the selected name,
  \<open>interface{}\<close>, the three channel directions, \<open>...\<close> and \<open>func\<close> with the rendered
  signature, each around the rendering of the parts. The expressions that no case matches
  are the nil expression, struct types, field lists, basic literals and all other kinds;
  for them the string is the printed node, or the node's type tag when printing returns an
  error. The string is not empty unless the resolved type, the identifier, the printed text
  or the type tag is, and the printer matters only on the expressions that no case matches.
\<close>

theorem C9_getTypeString_total:
  "getTypeString_fieldStrings_getSignature_dom (Inl (fprint, expr, ti))
   \<and> getTypeString_fieldStrings_getSignature_dom (Inr (Inr (fprint, ps, rs, ti)))
   \<and> (\<forall>tv. typeOf ti expr = Some tv \<longrightarrow> getTypeString fprint expr ti = tv)
   \<and> (typeOf ti expr = None \<longrightarrow>
        (\<forall>name i. expr = Ident name i \<longrightarrow> getTypeString fprint expr ti = name)
      \<and> (\<forall>x. expr = StarExpr x \<longrightarrow>
            getTypeString fprint expr ti = ''*'' @ getTypeString fprint x ti)
      \<and> (\<forall>len elt. expr = ArrayType len elt \<longrightarrow>
            getTypeString fprint expr ti = ''[]'' @ getTypeString fprint elt ti)
      \<and> (\<forall>k v. expr = MapType k v \<longrightarrow>
            getTypeString fprint expr ti =
              ''map['' @ getTypeString fprint k ti @ '']'' @ getTypeString fprint v ti)
      \<and> (\<forall>q i sel path. expr = SelectorExpr (Ident q i) sel
              \<and> Uses ti i = Some (PkgName path) \<longrightarrow>
            getTypeString fprint expr ti = path @ ''.'' @ sel)
      \<and> (\<forall>x sel. expr = SelectorExpr x sel
              \<and> (\<forall>q i path. x = Ident q i \<longrightarrow> Uses ti i \<noteq> Some (PkgName path)) \<longrightarrow>
            getTypeString fprint expr ti = getTypeString fprint x ti @ ''.'' @ sel)
      \<and> (\<forall>ms. expr = InterfaceType ms \<longrightarrow> getTypeString fprint expr ti = ''interface{}'')
      \<and> (\<forall>v. expr = ChanType SEND v \<longrightarrow>
            getTypeString fprint expr ti = ''chan<- '' @ getTypeString fprint v ti)
      \<and> (\<forall>v. expr = ChanType RECV v \<longrightarrow>
            getTypeString fprint expr ti = ''<-chan '' @ getTypeString fprint v ti)
      \<and> (\<forall>v. expr = ChanType SENDRECV v \<longrightarrow>
            getTypeString fprint expr ti = ''chan '' @ getTypeString fprint v ti)
      \<and> (\<forall>elt. expr = Ellipsis elt \<longrightarrow>
            getTypeString fprint expr ti = ''...'' @ getTypeString fprint elt ti)
      \<and> (\<forall>tps params results. expr = FuncType tps params results \<longrightarrow>
            getTypeString fprint expr ti = ''func'' @ getSignature fprint params results ti)
      \<and> (noCaseMatches expr \<longrightarrow>
            (\<forall>s. fprint expr = Some s \<longrightarrow> getTypeString fprint expr ti = s)
          \<and> (fprint expr = None \<longrightarrow> getTypeString fprint expr ti = typeTag expr)))
   \<and> (noCaseMatches expr \<longleftrightarrow>
        expr = NilNode \<or> (\<exists>fs. expr = StructType fs) \<or> (\<exists>fs. expr = FieldList fs)
          \<or> (\<exists>v i. expr = BasicLit v i) \<or> (\<exists>tag children. expr = OtherNode tag children))
   \<and> (typeOf ti expr \<noteq> Some [] \<and> (\<forall>i. expr \<noteq> Ident [] i)
        \<and> (noCaseMatches expr \<longrightarrow>
              fprint expr \<noteq> Some []
              \<and> (fprint expr = None \<longrightarrow> typeTag expr \<noteq> [])) \<longrightarrow>
        getTypeString fprint expr ti \<noteq> [])
   \<and> ((\<forall>n. noCaseMatches n \<longrightarrow> fprint n = fprint' n) \<longrightarrow>
        getTypeString fprint expr ti = getTypeString fprint' expr ti)"
proof (intro conjI impI allI)
  show "getTypeString_fieldStrings_getSignature_dom (Inl (fprint, expr, ti))"
    by (rule getTypeString_total(1))
  show "getTypeString_fieldStrings_getSignature_dom (Inr (Inr (fprint, ps, rs, ti)))"
    by (rule getTypeString_total(3))
  show "getTypeString fprint expr ti = tv" if "typeOf ti expr = Some tv" for tv
    using that by (rule getTypeString_resolved)
  show "noCaseMatches expr \<longleftrightarrow>
        expr = NilNode \<or> (\<exists>fs. expr = StructType fs) \<or> (\<exists>fs. expr = FieldList fs)
          \<or> (\<exists>v i. expr = BasicLit v i) \<or> (\<exists>tag children. expr = OtherNode tag children)"
    by (rule noCaseMatches_iff)
  show "getTypeString fprint expr ti \<noteq> []"
    if "typeOf ti expr \<noteq> Some [] \<and> (\<forall>i. expr \<noteq> Ident [] i)
        \<and> (noCaseMatches expr \<longrightarrow>
              fprint expr \<noteq> Some []
              \<and> (fprint expr = None \<longrightarrow> typeTag expr \<noteq> []))"
  proof
    assume "getTypeString fprint expr ti = []"
    from getTypeString_empty[OF this] that show False by auto
  qed
  show "getTypeString fprint expr ti = getTypeString fprint' expr ti"
    if "\<forall>n. noCaseMatches n \<longrightarrow> fprint n = fprint' n"
    using that by (intro printer_only_when_no_case_matches) blast
next
  assume u: "typeOf ti expr = None"
  note r = getTypeString_unresolved[OF u]
  show "getTypeString fprint expr ti = name" if "expr = Ident name i" for name i
    using that by (rule r)
  show "getTypeString fprint expr ti = ''*'' @ getTypeString fprint x ti"
    if "expr = StarExpr x" for x
    using that by (rule r)
  show "getTypeString fprint expr ti = ''[]'' @ getTypeString fprint elt ti"
    if "expr = ArrayType len elt" for len elt
    using that by (rule r)
  show "getTypeString fprint expr ti =
      ''map['' @ getTypeString fprint k ti @ '']'' @ getTypeString fprint v ti"
    if "expr = MapType k v" for k v
    using that by (rule r)
  show "getTypeString fprint expr ti = path @ ''.'' @ sel"
    if "expr = SelectorExpr (Ident q i) sel \<and> Uses ti i = Some (PkgName path)" for q i sel path
    using that u getTypeString_selector(1)[where ti = ti and x = "Ident q i" and sel = sel
        and q = q and i = i and path = path and fprint = fprint] by simp
  show "getTypeString fprint expr ti = getTypeString fprint x ti @ ''.'' @ sel"
    if "expr = SelectorExpr x sel
          \<and> (\<forall>q i path. x = Ident q i \<longrightarrow> Uses ti i \<noteq> Some (PkgName path))" for x sel
    using that u getTypeString_selector(2)[where ti = ti and x = x and sel = sel
        and fprint = fprint] by blast
  show "getTypeString fprint expr ti = ''interface{}''" if "expr = InterfaceType ms" for ms
    using that by (rule r)
  show "getTypeString fprint expr ti = ''chan<- '' @ getTypeString fprint v ti"
    if "expr = ChanType SEND v" for v
    using that by (rule r)
  show "getTypeString fprint expr ti = ''<-chan '' @ getTypeString fprint v ti"
    if "expr = ChanType RECV v" for v
    using that by (rule r)
  show "getTypeString fprint expr ti = ''chan '' @ getTypeString fprint v ti"
    if "expr = ChanType SENDRECV v" for v
    using that by (rule r)
  show "getTypeString fprint expr ti = ''...'' @ getTypeString fprint elt ti"
    if "expr = Ellipsis elt" for elt
    using that by (rule r)
  show "getTypeString fprint expr ti = ''func'' @ getSignature fprint params results ti"
    if "expr = FuncType tps params results" for tps params results
    using that by (rule r)
  show "getTypeString fprint expr ti = s" if "noCaseMatches expr" "fprint expr = Some s" for s
    using getTypeString_fallback[OF u that(1), of fprint] that(2) by simp
  show "getTypeString fprint expr ti = typeTag expr" if "noCaseMatches expr" "fprint expr = None"
    using getTypeString_fallback[OF u that(1), of fprint] that(2) by simp
qed

theorem C9_getTypeString_total_witness:
  "typeOf intOnlyInfo (Ident ''int'' 7) = Some ''int''
   \<and> getTypeString samplePrinter (Ident ''int'' 7) intOnlyInfo = ''int''
   \<and> typeOf intOnlyInfo (Ident ''T'' 1) = None
   \<and> getTypeString samplePrinter (Ident ''T'' 1) intOnlyInfo =
       ''T''
   \<and> getTypeString samplePrinter (StarExpr (Ident ''T'' 1)) intOnlyInfo =
       ''*T''
   \<and> getTypeString samplePrinter (ArrayType NilNode (Ident ''int'' 7)) intOnlyInfo =
       ''[]int''
   \<and> getTypeString samplePrinter
        (MapType (Ident ''string'' 2) (StarExpr (Ident ''T'' 1))) intOnlyInfo =
       ''map[string]*T''
   \<and> getTypeString samplePrinter (SelectorExpr (Ident ''http'' 3) ''Client'') intOnlyInfo =
       ''net/http.Client''
   \<and> getTypeString samplePrinter (SelectorExpr (Ident ''s'' 4) ''f'') intOnlyInfo =
       ''s.f''
   \<and> getTypeString samplePrinter (InterfaceType []) intOnlyInfo =
       ''interface{}''
   \<and> getTypeString samplePrinter (ChanType SEND (Ident ''T'' 1)) intOnlyInfo =
       ''chan<- T''
   \<and> getTypeString samplePrinter (ChanType RECV (Ident ''T'' 1)) intOnlyInfo =
       ''<-chan T''
   \<and> getTypeString samplePrinter (ChanType SENDRECV (Ident ''T'' 1)) intOnlyInfo =
       ''chan T''
   \<and> getTypeString samplePrinter (Ellipsis (Ident ''T'' 1)) intOnlyInfo =
       ''...T''
   \<and> getTypeString samplePrinter (FuncType [] [Field [''a'', ''b''] (Ident ''int'' 7)]
          [Field [] (StarExpr (Ident ''T'' 1)), Field [] (Ident ''error'' 5)]) intOnlyInfo =
       ''func(a int, b int) (*T, error)''
   \<and> getTypeString samplePrinter (FuncType [] [] [Field [] (Ident ''int'' 7)]) intOnlyInfo =
       ''func() int''
   \<and> samplePrinter (StructType []) = Some ''struct{}''
   \<and> getTypeString samplePrinter (StructType []) intOnlyInfo = ''struct{}''
   \<and> samplePrinter NilNode = None
   \<and> getTypeString samplePrinter NilNode intOnlyInfo = ''<nil>''
   \<and> getTypeString samplePrinter
        (MapType (Ident ''string'' 2) (StarExpr (Ident ''T'' 1))) intOnlyInfo \<noteq> []
   \<and> getTypeString (\<lambda>n. if noCaseMatches n then samplePrinter n else None)
        (MapType (Ident ''string'' 2) (StarExpr (Ident ''T'' 1))) intOnlyInfo =
       ''map[string]*T''"
proof -
  note c9 = C9_getTypeString_total[where fprint = samplePrinter and ti = intOnlyInfo
      and ps = "[]" and rs = "[]" and fprint' = samplePrinter]
  note resolved = c9[THEN conjunct2, THEN conjunct2, THEN conjunct1, THEN spec, THEN mp]
  note unresolved = c9[THEN conjunct2, THEN conjunct2, THEN conjunct2, THEN conjunct1, THEN mp]
  have r: "typeOf intOnlyInfo (Ident ''int'' 7) = Some ''int''"
    by (simp add: typeOf_def intOnlyInfo_def)
  have u: "typeOf intOnlyInfo e = None" if "e \<noteq> Ident ''int'' 7" for e
    using that by (simp add: typeOf_def intOnlyInfo_def)
  have uses3: "Uses intOnlyInfo 3 = Some (PkgName ''net/http'')"
    by (simp add: intOnlyInfo_def)
  have uses4: "\<forall>q i path. Ident ''s'' 4 = Ident q i \<longrightarrow> Uses intOnlyInfo i \<noteq> Some (PkgName path)"
    by (simp add: intOnlyInfo_def)
  have sig: "getSignature samplePrinter [Field [''a'', ''b''] (Ident ''int'' 7)]
        [Field [] (StarExpr (Ident ''T'' 1)), Field [] (Ident ''error'' 5)] intOnlyInfo =
      ''(a int, b int) (*T, error)''"
    "getSignature samplePrinter [] [Field [] (Ident ''int'' 7)] intOnlyInfo = ''() int''"
    by code_simp+
  have printed: "samplePrinter (StructType []) = Some ''struct{}''" "samplePrinter NilNode = None"
    by (simp_all add: samplePrinter_def)
  have v_int: "getTypeString samplePrinter (Ident ''int'' 7) intOnlyInfo = ''int''"
    using r by (rule resolved)
  have u_T: "typeOf intOnlyInfo (Ident ''T'' 1) = None"
    by (rule u) simp
  note e_T = unresolved[of "Ident ''T'' 1", OF u_T,
      THEN conjunct1, THEN spec, THEN spec, THEN mp, OF refl]
  from e_T
  have v_T: "getTypeString samplePrinter (Ident ''T'' 1) intOnlyInfo =
      ''T''"
    by (simp del: getTypeString.simps)
  have u_str: "typeOf intOnlyInfo (Ident ''string'' 2) = None"
    by (rule u) simp
  note e_str = unresolved[of "Ident ''string'' 2", OF u_str,
      THEN conjunct1, THEN spec, THEN spec, THEN mp, OF refl]
  from e_str
  have v_str: "getTypeString samplePrinter (Ident ''string'' 2) intOnlyInfo =
      ''string''"
    by (simp del: getTypeString.simps)
  have u_s: "typeOf intOnlyInfo (Ident ''s'' 4) = None"
    by (rule u) simp
  note e_s = unresolved[of "Ident ''s'' 4", OF u_s,
      THEN conjunct1, THEN spec, THEN spec, THEN mp, OF refl]
  from e_s
  have v_s: "getTypeString samplePrinter (Ident ''s'' 4) intOnlyInfo =
      ''s''"
    by (simp del: getTypeString.simps)
  have u_star: "typeOf intOnlyInfo (StarExpr (Ident ''T'' 1)) = None"
    by (rule u) simp
  note e_star = unresolved[of "StarExpr (Ident ''T'' 1)", OF u_star,
      THEN conjunct2, THEN conjunct1, THEN spec, THEN mp, OF refl]
  from e_star v_T
  have v_star: "getTypeString samplePrinter (StarExpr (Ident ''T'' 1)) intOnlyInfo =
      ''*T''"
    by (simp del: getTypeString.simps)
  have u_arr: "typeOf intOnlyInfo (ArrayType NilNode (Ident ''int'' 7)) = None"
    by (rule u) simp
  note e_arr = unresolved[of "ArrayType NilNode (Ident ''int'' 7)", OF u_arr,
      THEN conjunct2, THEN conjunct2, THEN conjunct1, THEN spec, THEN spec, THEN mp, OF refl]
  from e_arr v_int
  have v_arr: "getTypeString samplePrinter (ArrayType NilNode (Ident ''int'' 7)) intOnlyInfo =
      ''[]int''"
    by (simp del: getTypeString.simps)
  have u_mp: "typeOf intOnlyInfo (MapType (Ident ''string'' 2) (StarExpr (Ident ''T'' 1))) = None"
    by (rule u) simp
  note e_mp = unresolved[of "MapType (Ident ''string'' 2) (StarExpr (Ident ''T'' 1))", OF u_mp,
      THEN conjunct2, THEN conjunct2, THEN conjunct2, THEN conjunct1, THEN spec, THEN spec,
      THEN mp, OF refl]
  from e_mp v_str v_star
  have v_mp: "getTypeString samplePrinter
        (MapType (Ident ''string'' 2) (StarExpr (Ident ''T'' 1))) intOnlyInfo =
      ''map[string]*T''"
    by (simp del: getTypeString.simps)
  have u_pk: "typeOf intOnlyInfo (SelectorExpr (Ident ''http'' 3) ''Client'') = None"
    by (rule u) simp
  note e_pk = unresolved[of "SelectorExpr (Ident ''http'' 3) ''Client''", OF u_pk,
      THEN conjunct2, THEN conjunct2, THEN conjunct2, THEN conjunct2, THEN conjunct1,
      THEN spec, THEN spec, THEN spec, THEN spec, THEN mp, OF conjI, OF refl uses3]
  from e_pk
  have v_pk: "getTypeString samplePrinter (SelectorExpr (Ident ''http'' 3) ''Client'') intOnlyInfo =
      ''net/http.Client''"
    by (simp del: getTypeString.simps)
  have u_fld: "typeOf intOnlyInfo (SelectorExpr (Ident ''s'' 4) ''f'') = None"
    by (rule u) simp
  note e_fld = unresolved[of "SelectorExpr (Ident ''s'' 4) ''f''", OF u_fld,
      THEN conjunct2, THEN conjunct2, THEN conjunct2, THEN conjunct2, THEN conjunct2,
      THEN conjunct1, THEN spec, THEN spec, THEN mp, OF conjI, OF refl uses4]
  from e_fld v_s
  have v_fld: "getTypeString samplePrinter (SelectorExpr (Ident ''s'' 4) ''f'') intOnlyInfo =
      ''s.f''"
    by (simp del: getTypeString.simps)
  have u_ifc: "typeOf intOnlyInfo (InterfaceType []) = None"
    by (rule u) simp
  note e_ifc = unresolved[of "InterfaceType []", OF u_ifc,
      THEN conjunct2, THEN conjunct2, THEN conjunct2, THEN conjunct2, THEN conjunct2,
      THEN conjunct2, THEN conjunct1, THEN spec, THEN mp, OF refl]
  from e_ifc
  have v_ifc: "getTypeString samplePrinter (InterfaceType []) intOnlyInfo =
      ''interface{}''"
    by (simp del: getTypeString.simps)
  have u_snd: "typeOf intOnlyInfo (ChanType SEND (Ident ''T'' 1)) = None"
    by (rule u) simp
  note e_snd = unresolved[of "ChanType SEND (Ident ''T'' 1)", OF u_snd,
      THEN conjunct2, THEN conjunct2, THEN conjunct2, THEN conjunct2, THEN conjunct2,
      THEN conjunct2, THEN conjunct2, THEN conjunct1, THEN spec, THEN mp, OF refl]
  from e_snd v_T
  have v_snd: "getTypeString samplePrinter (ChanType SEND (Ident ''T'' 1)) intOnlyInfo =
      ''chan<- T''"
    by (simp del: getTypeString.simps)
  have u_rcv: "typeOf intOnlyInfo (ChanType RECV (Ident ''T'' 1)) = None"
    by (rule u) simp
  note e_rcv = unresolved[of "ChanType RECV (Ident ''T'' 1)", OF u_rcv,
      THEN conjunct2, THEN conjunct2, THEN conjunct2, THEN conjunct2, THEN conjunct2,
      THEN conjunct2, THEN conjunct2, THEN conjunct2, THEN conjunct1, THEN spec, THEN mp,
      OF refl]
  from e_rcv v_T
  have v_rcv: "getTypeString samplePrinter (ChanType RECV (Ident ''T'' 1)) intOnlyInfo =
      ''<-chan T''"
    by (simp del: getTypeString.simps)
  have u_both: "typeOf intOnlyInfo (ChanType SENDRECV (Ident ''T'' 1)) = None"
    by (rule u) simp
  note e_both = unresolved[of "ChanType SENDRECV (Ident ''T'' 1)", OF u_both,
      THEN conjunct2, THEN conjunct2, THEN conjunct2, THEN conjunct2, THEN conjunct2,
      THEN conjunct2, THEN conjunct2, THEN conjunct2, THEN conjunct2, THEN conjunct1,
      THEN spec, THEN mp, OF refl]
  from e_both v_T
  have v_both: "getTypeString samplePrinter (ChanType SENDRECV (Ident ''T'' 1)) intOnlyInfo =
      ''chan T''"
    by (simp del: getTypeString.simps)
  have u_ell: "typeOf intOnlyInfo (Ellipsis (Ident ''T'' 1)) = None"
    by (rule u) simp
  note e_ell = unresolved[of "Ellipsis (Ident ''T'' 1)", OF u_ell,
      THEN conjunct2, THEN conjunct2, THEN conjunct2, THEN conjunct2, THEN conjunct2,
      THEN conjunct2, THEN conjunct2, THEN conjunct2, THEN conjunct2, THEN conjunct2,
      THEN conjunct1, THEN spec, THEN mp, OF refl]
  from e_ell v_T
  have v_ell: "getTypeString samplePrinter (Ellipsis (Ident ''T'' 1)) intOnlyInfo =
      ''...T''"
    by (simp del: getTypeString.simps)
  have u_fn: "typeOf intOnlyInfo (FuncType [] [Field [''a'', ''b''] (Ident ''int'' 7)]
          [Field [] (StarExpr (Ident ''T'' 1)), Field [] (Ident ''error'' 5)]) = None"
    by (rule u) simp
  note e_fn = unresolved[of "FuncType [] [Field [''a'', ''b''] (Ident ''int'' 7)]
          [Field [] (StarExpr (Ident ''T'' 1)), Field [] (Ident ''error'' 5)]", OF u_fn,
      THEN conjunct2, THEN conjunct2, THEN conjunct2, THEN conjunct2, THEN conjunct2,
      THEN conjunct2, THEN conjunct2, THEN conjunct2, THEN conjunct2, THEN conjunct2,
      THEN conjunct2, THEN conjunct1, THEN spec, THEN spec, THEN spec, THEN mp, OF refl]
  from e_fn sig(1)
  have v_fn: "getTypeString samplePrinter (FuncType [] [Field [''a'', ''b''] (Ident ''int'' 7)]
          [Field [] (StarExpr (Ident ''T'' 1)), Field [] (Ident ''error'' 5)]) intOnlyInfo =
      ''func(a int, b int) (*T, error)''"
    by (simp del: getTypeString.simps)
  have u_fn1: "typeOf intOnlyInfo (FuncType [] [] [Field [] (Ident ''int'' 7)]) = None"
    by (rule u) simp
  note e_fn1 = unresolved[of "FuncType [] [] [Field [] (Ident ''int'' 7)]", OF u_fn1,
      THEN conjunct2, THEN conjunct2, THEN conjunct2, THEN conjunct2, THEN conjunct2,
      THEN conjunct2, THEN conjunct2, THEN conjunct2, THEN conjunct2, THEN conjunct2,
      THEN conjunct2, THEN conjunct1, THEN spec, THEN spec, THEN spec, THEN mp, OF refl]
  from e_fn1 sig(2)
  have v_fn1: "getTypeString samplePrinter (FuncType [] [] [Field [] (Ident ''int'' 7)]) intOnlyInfo =
      ''func() int''"
    by (simp del: getTypeString.simps)
  have u_st: "typeOf intOnlyInfo (StructType []) = None"
    by (rule u) simp
  have n_st: "noCaseMatches (StructType [])" by simp
  note e_st = unresolved[of "StructType []", OF u_st,
      THEN conjunct2, THEN conjunct2, THEN conjunct2, THEN conjunct2, THEN conjunct2,
      THEN conjunct2, THEN conjunct2, THEN conjunct2, THEN conjunct2, THEN conjunct2,
      THEN conjunct2, THEN conjunct2, THEN mp, OF n_st,
      THEN conjunct1, THEN spec, THEN mp, OF printed(1)]
  have u_nl: "typeOf intOnlyInfo NilNode = None"
    by (rule u) simp
  have n_nl: "noCaseMatches NilNode" by simp
  note e_nl = unresolved[of NilNode, OF u_nl,
      THEN conjunct2, THEN conjunct2, THEN conjunct2, THEN conjunct2, THEN conjunct2,
      THEN conjunct2, THEN conjunct2, THEN conjunct2, THEN conjunct2, THEN conjunct2,
      THEN conjunct2, THEN conjunct2, THEN mp, OF n_nl,
      THEN conjunct2, THEN mp, OF printed(2)]
  from e_nl have v_nl: "getTypeString samplePrinter NilNode intOnlyInfo = ''<nil>''"
    by (simp del: getTypeString.simps)
  have ne: "typeOf intOnlyInfo (MapType (Ident ''string'' 2) (StarExpr (Ident ''T'' 1))) \<noteq> Some []
        \<and> (\<forall>i. MapType (Ident ''string'' 2) (StarExpr (Ident ''T'' 1)) \<noteq> Ident [] i)
        \<and> (noCaseMatches (MapType (Ident ''string'' 2) (StarExpr (Ident ''T'' 1))) \<longrightarrow>
              samplePrinter (MapType (Ident ''string'' 2) (StarExpr (Ident ''T'' 1))) \<noteq> Some []
              \<and> (samplePrinter (MapType (Ident ''string'' 2) (StarExpr (Ident ''T'' 1))) = None \<longrightarrow>
                    typeTag (MapType (Ident ''string'' 2) (StarExpr (Ident ''T'' 1))) \<noteq> []))"
    using u_mp by simp
  note nonempty = c9[of "MapType (Ident ''string'' 2) (StarExpr (Ident ''T'' 1))",
      THEN conjunct2, THEN conjunct2, THEN conjunct2, THEN conjunct2,
      THEN conjunct2, THEN conjunct1, THEN mp, OF ne]
  have agree: "\<forall>n. noCaseMatches n \<longrightarrow>
      samplePrinter n = (if noCaseMatches n then samplePrinter n else None)"
    by simp
  note indep = C9_getTypeString_total[where fprint = samplePrinter and ti = intOnlyInfo
      and ps = "[]" and rs = "[]"
      and fprint' = "\<lambda>n. if noCaseMatches n then samplePrinter n else None"
      and expr = "MapType (Ident ''string'' 2) (StarExpr (Ident ''T'' 1))",
      THEN conjunct2, THEN conjunct2, THEN conjunct2, THEN conjunct2, THEN conjunct2,
      THEN conjunct2, THEN mp, OF agree]
  from indep v_mp
  have other: "getTypeString (\<lambda>n. if noCaseMatches n then samplePrinter n else None)
        (MapType (Ident ''string'' 2) (StarExpr (Ident ''T'' 1))) intOnlyInfo =
       ''map[string]*T''"
    by (simp del: getTypeString.simps)
  from r v_int u_T v_T v_star v_arr v_mp v_pk v_fld v_ifc v_snd v_rcv v_both v_ell v_fn v_fn1
    printed e_st v_nl nonempty other
  show ?thesis by (intro conjI)
qed

section \<open>The loops only append\<close>

lemma addOutput_empty [simp]: "addOutput st emptyState = st" "addOutput emptyState st = st"
  by (simp_all add: addOutput_def emptyState_def)

lemma addOutput_assoc: "addOutput (addOutput a b) c = addOutput a (addOutput b c)"
  by (simp add: addOutput_def)

lemma chunks_addOutput [simp]: "chunks (addOutput a b) = chunks a @ chunks b"
  and logs_addOutput [simp]: "logs (addOutput a b) = logs a @ logs b"
  by (simp_all add: addOutput_def)

lemma logPrint_addOutput: "logPrint m st = addOutput st (logPrint m emptyState)"
  by (simp add: logPrint_def addOutput_def emptyState_def)

lemma appendChunk_addOutput: "appendChunk c st = addOutput st (appendChunk c emptyState)"
  by (simp add: appendChunk_def addOutput_def emptyState_def)

lemma appendOnly_step: "appendOnly f \<Longrightarrow> f st x = addOutput st (f emptyState x)"
  unfolding appendOnly_def by blast

lemma appendOnly_foldl:
  assumes "appendOnly f"
  shows "foldl f st xs = addOutput st (foldl f emptyState xs)"
proof (induction xs arbitrary: st)
  case Nil
  show ?case by simp
next
  case (Cons x xs)
  have "foldl f st (x # xs) = foldl f (f st x) xs"
    by (rule foldl_Cons)
  also have "\<dots> = addOutput (f st x) (foldl f emptyState xs)"
    by (rule Cons.IH)
  also have "\<dots> = addOutput (addOutput st (f emptyState x)) (foldl f emptyState xs)"
    by (subst appendOnly_step[OF assms, of st x]) (rule refl)
  also have "\<dots> = addOutput st (addOutput (f emptyState x) (foldl f emptyState xs))"
    by (rule addOutput_assoc)
  also have "\<dots> = addOutput st (foldl f (f emptyState x) xs)"
    by (subst Cons.IH[of "f emptyState x"]) (rule refl)
  also have "\<dots> = addOutput st (foldl f emptyState (x # xs))"
    by (subst foldl_Cons) (rule refl)
  finally show ?case .
qed

lemma appendOnly_foldl_chunks:
  assumes "appendOnly f"
  shows "chunks (foldl f emptyState xs) = concat (map (\<lambda>x. chunks (f emptyState x)) xs)"
proof (induction xs)
  case Nil
  show ?case by (simp add: emptyState_def)
next
  case (Cons x xs)
  have "foldl f emptyState (x # xs) = addOutput (f emptyState x) (foldl f emptyState xs)"
    using appendOnly_foldl[OF assms, of "f emptyState x" xs] by simp
  with Cons.IH show ?case by simp
qed

lemma appendOnly_foldl_logs:
  assumes "appendOnly f"
  shows "logs (foldl f emptyState xs) = concat (map (\<lambda>x. logs (f emptyState x)) xs)"
proof (induction xs)
  case Nil
  show ?case by (simp add: emptyState_def)
next
  case (Cons x xs)
  have "foldl f emptyState (x # xs) = addOutput (f emptyState x) (foldl f emptyState xs)"
    using appendOnly_foldl[OF assms, of "f emptyState x" xs] by simp
  with Cons.IH show ?case by simp
qed

lemma appendOnly_foldlI: "appendOnly f \<Longrightarrow> appendOnly (\<lambda>st xs. foldl f st xs)"
  unfolding appendOnly_def[of "\<lambda>st xs. foldl f st xs"]
  using appendOnly_foldl by blast

lemma appendOnly_processSpec: "appendOnly (processSpec e ti filePath content metadata tok)"
  unfolding appendOnly_def
proof (intro allI)
  fix st :: state and sp :: "Position \<times> Position \<times> spec"
  obtain s e' x where sp: "sp = (s, e', x)" by (cases sp)
  show "processSpec e ti filePath content metadata tok st sp =
      addOutput st (processSpec e ti filePath content metadata tok emptyState sp)"
    unfolding sp processSpec_def Let_def prod.case
    by (cases x; cases "invalidOffsets (Offset s) (Offset e') content")
      (simp_all only: spec.case if_True if_False logPrint_addOutput[of _ st]
        appendChunk_addOutput[of _ st] addOutput_empty)
qed

lemma appendOnly_processDecl: "appendOnly (processDecl e ti packageName filePath content)"
  unfolding appendOnly_def
proof (intro allI)
  fix st :: state and d :: "Position \<times> Position \<times> decl"
  obtain s e' x where d: "d = (s, e', x)" by (cases d)
  note sp = appendOnly_foldl[OF appendOnly_processSpec, of _ _ _ _ _ _ st]
  show "processDecl e ti packageName filePath content st d =
      addOutput st (processDecl e ti packageName filePath content emptyState d)"
    unfolding d processDecl_def Let_def prod.case
    by (cases x; cases "invalidOffsets (Offset s) (Offset e') content")
      (auto simp only: decl.case if_True if_False logPrint_addOutput[of _ st]
        appendChunk_addOutput[of _ st] addOutput_empty sp simp_thms split: if_split)
qed

lemma appendOnly_processFile: "appendOnly (processFile e ti packageName)"
  unfolding appendOnly_def
proof (intro allI)
  fix st :: state and f :: sourceFile
  note dd = appendOnly_foldl[OF appendOnly_processDecl, of _ _ _ _ _ st]
  show "processFile e ti packageName st f = addOutput st (processFile e ti packageName emptyState f)"
    unfolding processFile_def Let_def
    by (cases "ReadFile e (fileName f)")
      (simp_all only: sum.case logPrint_addOutput[of _ st] dd)
qed

lemma appendOnly_processPackage: "appendOnly (processPackage e)"
  unfolding appendOnly_def
proof (intro allI)
  fix st :: state and pkg :: package
  note ff = appendOnly_foldl[OF appendOnly_processFile, of _ _ _ st]
  show "processPackage e st pkg = addOutput st (processPackage e emptyState pkg)"
    unfolding processPackage_def
    by (cases "TypesInfo pkg"; cases "Syntax pkg"; cases "Fset pkg")
      (simp_all only: prod.case option.case logPrint_addOutput[of _ st] ff)
qed

section \<open>Spans are validated before they are used\<close>

lemma processDecl_invalid:
  "invalidOffsets (Offset s) (Offset e') content \<Longrightarrow>
     processDecl e ti pn fp content st (s, e', d) =
       logPrint (invalidOffsetsWarning ''declaration'' fp s e' content) st"
  by (simp add: processDecl_def Let_def)

lemma processSpec_invalid:
  "invalidOffsets (Offset s) (Offset e') content \<Longrightarrow>
     processSpec e ti fp content md tok st (s, e', x) =
       logPrint (invalidOffsetsWarning ''spec'' fp s e' content) st"
  by (simp add: processSpec_def Let_def)

lemma chunks_logPrint [simp]: "chunks (logPrint m st) = chunks st"
  and logs_logPrint [simp]: "logs (logPrint m st) = logs st @ [m]"
  by (simp_all add: logPrint_def)

lemma chunks_appendChunk [simp]: "chunks (appendChunk c st) = chunks st @ [c]"
  and logs_appendChunk [simp]: "logs (appendChunk c st) = logs st"
  by (simp_all add: appendChunk_def)

lemma chunks_emptyState [simp]: "chunks emptyState = []"
  and logs_emptyState [simp]: "logs emptyState = []"
  by (simp_all add: emptyState_def)

lemma processSpec_chunk:
  assumes "c \<in> set (chunks (processSpec e ti fp content md tok emptyState (s, e', x)))"
  shows "\<not> invalidOffsets (Offset s) (Offset e') content \<and>
    (\<exists>n. Document c =
       applyQualifierReplacements (Sched e) (slice content (Offset s) (Offset e')) n (Some ti))"
proof (cases "invalidOffsets (Offset s) (Offset e') content")
  case True
  with assms show ?thesis by (simp add: processSpec_invalid)
next
  case False
  with assms show ?thesis
    by (cases x) (auto simp: processSpec_def Let_def)
qed

lemma valid_offsets:
  "\<not> invalidOffsets a b content \<Longrightarrow> 0 \<le> a \<and> a \<le> b \<and> b \<le> int (length content)"
  by (auto simp: invalidOffsets_def)

lemma processDecl_chunk:
  assumes "c \<in> set (chunks (processDecl e ti pn fp content emptyState d))"
  shows "chunkFromSpan (Sched e) ti content d c"
proof -
  obtain s e' x where d: "d = (s, e', x)" by (cases d)
  show ?thesis
  proof (cases "invalidOffsets (Offset s) (Offset e') content")
    case True
    with assms show ?thesis by (simp add: d processDecl_invalid)
  next
    case valid: False
    show ?thesis
    proof (cases x)
      case (FuncDecl recv name tparams params results body)
      with assms valid have "Document c = applyQualifierReplacements (Sched e)
          (slice content (Offset s) (Offset e')) (funcDeclNode recv tparams params results body) (Some ti)"
        by (auto simp: d processDecl_def Let_def)
      with valid_offsets[OF valid] show ?thesis
        unfolding chunkFromSpan_def d spansOf_def by auto
    next
      case (GenDecl tok specs)
      let ?md = "[''file_path'' \<mapsto> S fp, ''package_name'' \<mapsto> S pn]"
      from assms valid GenDecl
      have "tok \<noteq> TokIMPORT"
        and "c \<in> set (chunks (foldl (processSpec e ti fp content ?md tok) emptyState specs))"
        by (auto simp: d processDecl_def Let_def split: if_splits)
      then obtain sp where sp: "sp \<in> set specs"
        and c: "c \<in> set (chunks (processSpec e ti fp content ?md tok emptyState sp))"
        by (auto simp: appendOnly_foldl_chunks[OF appendOnly_processSpec])
      obtain s1 e1 x1 where sp1: "sp = (s1, e1, x1)" by (cases sp)
      from processSpec_chunk[OF c[unfolded sp1]] valid_offsets[of "Offset s1" "Offset e1" content]
      have "0 \<le> Offset s1 \<and> Offset s1 \<le> Offset e1 \<and> Offset e1 \<le> int (length content) \<and>
        (\<exists>n. Document c =
           applyQualifierReplacements (Sched e) (slice content (Offset s1) (Offset e1)) n (Some ti))"
        by blast
      moreover from sp sp1 GenDecl have "(Offset s1, Offset e1) \<in> set (spansOf d)"
        by (force simp: d spansOf_def)
      ultimately show ?thesis
        unfolding chunkFromSpan_def by blast
    next
      case BadDecl
      with assms valid show ?thesis by (simp add: d processDecl_def Let_def)
    qed
  qed
qed

lemma processFile_chunks:
  "chunks (processFile e ti pn emptyState f) =
     (case ReadFile e (fileName f) of
        Inl err \<Rightarrow> []
      | Inr content \<Rightarrow>
          concat (map (\<lambda>d. chunks (processDecl e ti pn (fileName f) content emptyState d)) (Decls f)))"
  by (simp add: processFile_def Let_def appendOnly_foldl_chunks[OF appendOnly_processDecl]
      split: sum.splits)

lemma processPackage_chunks:
  "chunks (processPackage e emptyState pkg) =
     (case (TypesInfo pkg, Syntax pkg, Fset pkg) of
        (Some ti, Some files, Some fset) \<Rightarrow>
          concat (map (\<lambda>f. chunks (processFile e ti (pkgName pkg) emptyState f)) files)
      | _ \<Rightarrow> [])"
  by (simp add: processPackage_def appendOnly_foldl_chunks[OF appendOnly_processFile]
      split: option.splits)

lemma processGoProject_chunks:
  assumes "Load e projectPath = Inr pkgs"
  shows "snd (processGoProject e projectPath) =
    Inr (concat (map (\<lambda>pkg. chunks (processPackage e emptyState pkg)) pkgs))"
proof -
  have "chunks (foldl (processPackage e) st pkgs) =
      chunks st @ concat (map (\<lambda>pkg. chunks (processPackage e emptyState pkg)) pkgs)" for st
    by (subst appendOnly_foldl[OF appendOnly_processPackage])
      (simp add: appendOnly_foldl_chunks[OF appendOnly_processPackage])
  with assms show ?thesis
    by (simp add: processGoProject_def Let_def)
qed

lemma processGoProject_chunk:
  assumes "Load e projectPath = Inr pkgs"
    and "c \<in> set (resultChunks (processGoProject e projectPath))"
  shows "chunkInProject e pkgs c"
proof -
  from assms obtain pkg where pkg: "pkg \<in> set pkgs"
    and c1: "c \<in> set (chunks (processPackage e emptyState pkg))"
    by (auto simp: resultChunks_def processGoProject_chunks)
  from c1 obtain ti files where ti: "TypesInfo pkg = Some ti" and files: "Syntax pkg = Some files"
    by (cases "TypesInfo pkg"; cases "Syntax pkg") (simp_all add: processPackage_chunks)
  with c1 obtain f where f: "f \<in> set files"
    and c2: "c \<in> set (chunks (processFile e ti (pkgName pkg) emptyState f))"
    by (cases "Fset pkg") (auto simp: processPackage_chunks)
  from c2 obtain content where rd: "ReadFile e (fileName f) = Inr content"
    by (cases "ReadFile e (fileName f)") (simp_all add: processFile_chunks)
  with c2 obtain d where d: "d \<in> set (Decls f)"
    and c3: "c \<in> set (chunks (processDecl e ti (pkgName pkg) (fileName f) content emptyState d))"
    by (auto simp: processFile_chunks)
  from processDecl_chunk[OF c3] pkg ti files f rd d show ?thesis
    unfolding chunkInProject_def by blast
qed

text \<open>
  C5. A declaration or a spec whose offsets are invalid (\<open>start < 0\<close>, \<open>end\<close> beyond the
  buffer, or \<open>start > end\<close>) adds one diagnostic to the log and no chunk, and the loop goes
  on with the next declaration or spec. Every chunk of the result comes from a span
  \<open>0 \<le> start \<le> end \<le> length buffer\<close> of a declaration of a readable file, and its
  document is the canonicalization of \<open>buffer[start:end]\<close>.
\<close>

theorem C5_invalid_spans_rejected:
  "(invalidOffsets (Offset s) (Offset e') content \<longrightarrow>
      processDecl e ti pn fp content st (s, e', d) =
        logPrint (invalidOffsetsWarning ''declaration'' fp s e' content) st
    \<and> chunks (processDecl e ti pn fp content st (s, e', d)) = chunks st
    \<and> foldl (processDecl e ti pn fp content) st ((s, e', d) # ds) =
        foldl (processDecl e ti pn fp content)
          (logPrint (invalidOffsetsWarning ''declaration'' fp s e' content) st) ds
    \<and> processSpec e ti fp content md tok st (s, e', x) =
        logPrint (invalidOffsetsWarning ''spec'' fp s e' content) st
    \<and> chunks (processSpec e ti fp content md tok st (s, e', x)) = chunks st
    \<and> foldl (processSpec e ti fp content md tok) st ((s, e', x) # xs) =
        foldl (processSpec e ti fp content md tok)
          (logPrint (invalidOffsetsWarning ''spec'' fp s e' content) st) xs)
   \<and> (Load e projectPath = Inr pkgs \<longrightarrow>
        (\<forall>c \<in> set (resultChunks (processGoProject e projectPath)). chunkInProject e pkgs c))"
  using processGoProject_chunk[of e projectPath pkgs]
  by (simp add: processDecl_invalid processSpec_invalid)

lemma stale_result:
  "fst (processGoProject staleEnv ''.'') =
     [''Loading packages from ....'', ''Finished loading 1 packages.'',
      ''Warning: Invalid offsets for declaration in stale.go (line 3): start=23, end=34, file_len=22. Skipping declaration.'']"
  "map (\<lambda>c. (docID c, Document c)) (resultChunks (processGoProject staleEnv ''.'')) =
     [(''stale.go:2-2-F'', ''func F() {}'')]"
  by code_simp+


theorem C5_invalid_spans_rejected_witness:
  "invalidOffsets (Offset (mkPos 23 3)) (Offset (mkPos 34 3)) staleContent
   \<and> processDecl staleEnv noInfo ''p'' ''stale.go'' staleContent emptyState
         (mkPos 23 3, mkPos 34 3, FuncDecl [] ''G'' [] [] [] emptyBody) =
       logPrint (invalidOffsetsWarning ''declaration'' ''stale.go'' (mkPos 23 3) (mkPos 34 3)
         staleContent) emptyState
   \<and> processSpec staleEnv noInfo ''stale.go'' staleContent Map.empty TokTYPE emptyState
         (mkPos 23 3, mkPos 34 3, TypeSpec ''T'' [] (StructType [])) =
       logPrint (invalidOffsetsWarning ''spec'' ''stale.go'' (mkPos 23 3) (mkPos 34 3)
         staleContent) emptyState
   \<and> Load staleEnv ''.'' = Inr [mkPackage [staleFile]]
   \<and> map (\<lambda>c. (docID c, Document c)) (resultChunks (processGoProject staleEnv ''.'')) =
       [(''stale.go:2-2-F'', ''func F() {}'')]
   \<and> chunkInProject staleEnv [mkPackage [staleFile]]
        (hd (resultChunks (processGoProject staleEnv ''.'')))"
proof -
  have inv: "invalidOffsets (Offset (mkPos 23 3)) (Offset (mkPos 34 3)) staleContent"
    by code_simp
  have ld: "Load staleEnv ''.'' = Inr [mkPackage [staleFile]]"
    by (simp add: staleEnv_def mkEnv_def)
  from stale_result(2) have "resultChunks (processGoProject staleEnv ''.'') \<noteq> []"
    by auto
  then have mem: "hd (resultChunks (processGoProject staleEnv ''.'')) \<in>
      set (resultChunks (processGoProject staleEnv ''.''))"
    by (rule hd_in_set)
  note inst = C5_invalid_spans_rejected[of "mkPos 23 3" "mkPos 34 3" staleContent staleEnv noInfo
      "''p''" "''stale.go''" emptyState "FuncDecl [] ''G'' [] [] [] emptyBody" "[]" Map.empty TokTYPE
      "TypeSpec ''T'' [] (StructType [])" "[]" "''.''" "[mkPackage [staleFile]]"]
  from inst inv have
    "processDecl staleEnv noInfo ''p'' ''stale.go'' staleContent emptyState
         (mkPos 23 3, mkPos 34 3, FuncDecl [] ''G'' [] [] [] emptyBody) =
       logPrint (invalidOffsetsWarning ''declaration'' ''stale.go'' (mkPos 23 3) (mkPos 34 3)
         staleContent) emptyState"
    and "processSpec staleEnv noInfo ''stale.go'' staleContent Map.empty TokTYPE emptyState
         (mkPos 23 3, mkPos 34 3, TypeSpec ''T'' [] (StructType [])) =
       logPrint (invalidOffsetsWarning ''spec'' ''stale.go'' (mkPos 23 3) (mkPos 34 3)
         staleContent) emptyState"
    by blast+
  moreover from inst ld mem
  have "chunkInProject staleEnv [mkPackage [staleFile]]
        (hd (resultChunks (processGoProject staleEnv ''.'')))"
    by blast
  ultimately show ?thesis
    using inv ld stale_result(2) by blast
qed

section \<open>An unreadable file is skipped and the others are processed\<close>

lemma processFile_unreadable:
  "ReadFile e (fileName f) = Inl err \<Longrightarrow>
     processFile e ti pn st f =
       logPrint (''Error reading file '' @ fileName f @ '': '' @ err) st"
  by (simp add: processFile_def)

lemma concat_map_filter_empty:
  "(\<And>x. x \<in> set xs \<Longrightarrow> \<not> P x \<Longrightarrow> g x = []) \<Longrightarrow>
     concat (map g (filter P xs)) = concat (map g xs)"
  by (induction xs) auto

lemma processFile_chunks_unreadable:
  "\<not> readable e f \<Longrightarrow> chunks (processFile e ti pn emptyState f) = []"
  by (auto simp: readable_def processFile_chunks split: sum.splits)

lemma processPackage_dropUnreadable:
  "chunks (processPackage e emptyState (dropUnreadable e pkg)) =
     chunks (processPackage e emptyState pkg)"
proof (cases "Syntax pkg")
  case None
  then show ?thesis
    by (simp add: processPackage_chunks dropUnreadable_def split: option.splits)
next
  case (Some files)
  have "concat (map (\<lambda>f. chunks (processFile e ti pn emptyState f)) (filter (readable e) files)) =
      concat (map (\<lambda>f. chunks (processFile e ti pn emptyState f)) files)" for ti pn
    by (rule concat_map_filter_empty) (rule processFile_chunks_unreadable)
  with Some show ?thesis
    by (simp add: processPackage_chunks dropUnreadable_def split: option.splits)
qed

lemma projectChunks_concat:
  "projectChunks e pkgs = concat (map (\<lambda>pkg. chunks (processPackage e emptyState pkg)) pkgs)"
  by (simp add: projectChunks_def appendOnly_foldl_chunks[OF appendOnly_processPackage])

lemma projectChunks_dropUnreadable:
  "projectChunks e (map (dropUnreadable e) pkgs) = projectChunks e pkgs"
  by (simp add: projectChunks_concat comp_def processPackage_dropUnreadable)

lemma processSpec_file_path:
  assumes "c \<in> set (chunks (processSpec e ti fp content md tok emptyState sp))"
    and "md ''file_path'' = Some (S fp)"
  shows "Metadata c ''file_path'' = Some (S fp)"
proof -
  obtain s e' x where sp: "sp = (s, e', x)" by (cases sp)
  show ?thesis
  proof (cases "invalidOffsets (Offset s) (Offset e') content")
    case True
    with assms show ?thesis by (simp add: sp processSpec_invalid)
  next
    case False
    with assms show ?thesis
      by (cases x) (auto simp: sp processSpec_def Let_def split: if_splits list.splits option.splits)
  qed
qed

lemma processDecl_file_path:
  assumes "c \<in> set (chunks (processDecl e ti pn fp content emptyState d))"
  shows "Metadata c ''file_path'' = Some (S fp)"
proof -
  obtain s e' x where d: "d = (s, e', x)" by (cases d)
  show ?thesis
  proof (cases "invalidOffsets (Offset s) (Offset e') content")
    case True
    with assms show ?thesis by (simp add: d processDecl_invalid)
  next
    case valid: False
    show ?thesis
    proof (cases x)
      case (FuncDecl recv name tparams params results body)
      with assms valid show ?thesis
        by (auto simp: d processDecl_def Let_def split: list.splits)
    next
      case (GenDecl tok specs)
      let ?md = "[''file_path'' \<mapsto> S fp, ''package_name'' \<mapsto> S pn]"
      from assms valid GenDecl
      have "c \<in> set (chunks (foldl (processSpec e ti fp content ?md tok) emptyState specs))"
        by (auto simp: d processDecl_def Let_def split: if_splits)
      then obtain sp where "c \<in> set (chunks (processSpec e ti fp content ?md tok emptyState sp))"
        by (auto simp: appendOnly_foldl_chunks[OF appendOnly_processSpec])
      then show ?thesis
        by (rule processSpec_file_path) simp
    next
      case BadDecl
      with assms valid show ?thesis by (simp add: d processDecl_def Let_def)
    qed
  qed
qed

lemma projectChunks_file_path:
  assumes "c \<in> set (projectChunks e pkgs)"
  shows "\<exists>p content. Metadata c ''file_path'' = Some (S p) \<and> ReadFile e p = Inr content"
proof -
  from assms obtain pkg where c1: "c \<in> set (chunks (processPackage e emptyState pkg))"
    by (auto simp: projectChunks_concat)
  then obtain ti files where ti: "TypesInfo pkg = Some ti" and files: "Syntax pkg = Some files"
    by (cases "TypesInfo pkg"; cases "Syntax pkg") (simp_all add: processPackage_chunks)
  with c1 obtain f where c2: "c \<in> set (chunks (processFile e ti (pkgName pkg) emptyState f))"
    by (cases "Fset pkg") (auto simp: processPackage_chunks)
  then obtain content where rd: "ReadFile e (fileName f) = Inr content"
    by (cases "ReadFile e (fileName f)") (simp_all add: processFile_chunks)
  with c2 obtain d where
    "c \<in> set (chunks (processDecl e ti (pkgName pkg) (fileName f) content emptyState d))"
    by (auto simp: processFile_chunks)
  from processDecl_file_path[OF this] rd show ?thesis by blast
qed

text \<open>
  C7. When the packages load, \<open>processGoProject\<close> returns chunks and no error, whatever
  files are unreadable. An unreadable file adds one line to the log and no chunk. The
  chunks are exactly those of the project without its unreadable files, and the
  \<open>file_path\<close> of every chunk names a file that could be read.
\<close>

theorem C7_unreadable_file_isolated:
  assumes "Load e projectPath = Inr pkgs"
  shows "snd (processGoProject e projectPath) = Inr (projectChunks e pkgs)
    \<and> projectChunks e pkgs = projectChunks e (map (dropUnreadable e) pkgs)
    \<and> (\<forall>c \<in> set (projectChunks e pkgs).
          \<exists>p content. Metadata c ''file_path'' = Some (S p) \<and> ReadFile e p = Inr content)
    \<and> (ReadFile e (fileName f) = Inl err \<longrightarrow>
          processFile e ti pn st f = logPrint (''Error reading file '' @ fileName f @ '': '' @ err) st
          \<and> chunks (processFile e ti pn st f) = chunks st)"
  using processGoProject_chunks[OF assms] projectChunks_dropUnreadable[of e pkgs]
    projectChunks_file_path[of _ e pkgs]
  by (auto simp: projectChunks_concat processFile_unreadable)


lemma gone_chunks:
  "map (\<lambda>c. (docID c, Document c)) (projectChunks goneEnv [mkPackage [goneFile, groupFile]]) =
     [(''group.go:4-4-A'', ''A struct{}''), (''group.go:5-5-B'', ''B interface{}'')]"
  by code_simp

theorem C7_unreadable_file_isolated_witness:
  "Load goneEnv ''.'' = Inr [mkPackage [goneFile, groupFile]]
   \<and> ReadFile goneEnv (fileName goneFile) = Inl ''open gone.go: no such file or directory''
   \<and> snd (processGoProject goneEnv ''.'') = Inr (projectChunks goneEnv [mkPackage [goneFile, groupFile]])
   \<and> map (\<lambda>c. (docID c, Document c)) (projectChunks goneEnv [mkPackage [goneFile, groupFile]]) =
       [(''group.go:4-4-A'', ''A struct{}''), (''group.go:5-5-B'', ''B interface{}'')]
   \<and> (\<exists>p content.
         Metadata (hd (projectChunks goneEnv [mkPackage [goneFile, groupFile]])) ''file_path'' = Some (S p)
         \<and> ReadFile goneEnv p = Inr content)
   \<and> processFile goneEnv noInfo ''p'' emptyState goneFile =
       logPrint (''Error reading file '' @ fileName goneFile @ '': ''
         @ ''open gone.go: no such file or directory'') emptyState"
proof -
  have ld: "Load goneEnv ''.'' = Inr [mkPackage [goneFile, groupFile]]"
    by (simp add: goneEnv_def mkEnv_def)
  have rd: "ReadFile goneEnv (fileName goneFile) = Inl ''open gone.go: no such file or directory''"
    by (simp add: goneEnv_def mkEnv_def goneFile_def)
  from gone_chunks have "projectChunks goneEnv [mkPackage [goneFile, groupFile]] \<noteq> []"
    by auto
  then have mem: "hd (projectChunks goneEnv [mkPackage [goneFile, groupFile]]) \<in>
      set (projectChunks goneEnv [mkPackage [goneFile, groupFile]])"
    by (rule hd_in_set)
  note inst = C7_unreadable_file_isolated[OF ld, of goneFile
      "''open gone.go: no such file or directory''" noInfo "''p''" emptyState]
  from inst rd mem gone_chunks ld show ?thesis by blast
qed

section \<open>One chunk for each spec of a group\<close>

lemma processDecl_import:
  "\<not> invalidOffsets (Offset s) (Offset e') content \<Longrightarrow>
     processDecl e ti pn fp content st (s, e', GenDecl TokIMPORT specs) = st"
  by (simp add: processDecl_def Let_def)

lemma processDecl_group:
  "\<not> invalidOffsets (Offset s) (Offset e') content \<Longrightarrow> tok \<noteq> TokIMPORT \<Longrightarrow>
     chunks (processDecl e ti pn fp content emptyState (s, e', GenDecl tok specs)) =
       concat (map (\<lambda>sp. chunks (processSpec e ti fp content
         [''file_path'' \<mapsto> S fp, ''package_name'' \<mapsto> S pn] tok emptyState sp)) specs)"
  by (simp add: processDecl_def Let_def appendOnly_foldl_chunks[OF appendOnly_processSpec])

lemma processSpec_type:
  "\<not> invalidOffsets (Offset s) (Offset e') content \<Longrightarrow>
     map chunkSummary (chunks (processSpec e ti fp content md tok emptyState
        (s, e', TypeSpec name tps ty))) =
     [(Some (S name), Some (S (typeCategory ty)), Some (I (Line s)), Some (I (Line e')))]"
  by (simp add: processSpec_def Let_def chunkSummary_def)

lemma processSpec_value:
  "\<not> invalidOffsets (Offset s) (Offset e') content \<Longrightarrow>
     map (\<lambda>c. (Metadata c ''entity_name'', Metadata c ''start_line'', Metadata c ''end_line''))
       (chunks (processSpec e ti fp content md tok emptyState (s, e', ValueSpec names ty vals))) =
     [(Some (S (Join names '', '')), Some (I (Line s)), Some (I (Line e')))]"
  by (simp add: processSpec_def Let_def split: list.splits option.splits)

lemma processSpec_import:
  "chunks (processSpec e ti fp content md tok emptyState (s, e', ImportSpec)) = []"
  by (simp add: processSpec_def Let_def)

text \<open>
  C6, as stated, fails: each chunk carries the lines of its own spec, and the two specs of
  \<^verbatim>\<open>type ( A struct{}; B interface{} )\<close> are on the same line, so both chunks have the
  line range 2 to 2.
\<close>

theorem C6_group_on_one_line:
  "map (\<lambda>c. (Document c, chunkSummary c)) (resultChunks (processGoProject oneLineEnv ''.'')) =
     [(''A struct{}'', Some (S ''A''), Some (S ''struct''), Some (I 2), Some (I 2)),
      (''B interface{}'', Some (S ''B''), Some (S ''interface''), Some (I 2), Some (I 2))]"
  by code_simp

text \<open>
  C6, amended. For a grouped declaration whose span is valid, an import declaration yields
  no chunk (and no diagnostic), and any other group yields the chunks of its specs, spec by
  spec: a type spec or a value spec with a valid span yields exactly one chunk, with its
  own name and its own line range, an import spec none. In particular a group of
  \<open>type A struct{}\<close> and \<open>type B interface{}\<close> yields exactly two chunks, named \<open>A\<close> and
  \<open>B\<close>, of type category \<open>struct\<close> and \<open>interface\<close>, each with the line range of its
  own spec; the two ranges are disjoint when the specs are on different lines.
\<close>

theorem C6_one_chunk_per_spec:
  assumes "\<not> invalidOffsets (Offset s) (Offset e') content"
  shows "processDecl e ti pn fp content st (s, e', GenDecl TokIMPORT specs) = st
    \<and> (tok \<noteq> TokIMPORT \<longrightarrow>
         chunks (processDecl e ti pn fp content emptyState (s, e', GenDecl tok specs)) =
           concat (map (\<lambda>sp. chunks (processSpec e ti fp content
             [''file_path'' \<mapsto> S fp, ''package_name'' \<mapsto> S pn] tok emptyState sp)) specs))
    \<and> chunks (processSpec e ti fp content md tok emptyState (s1, e1, ImportSpec)) = []
    \<and> (\<not> invalidOffsets (Offset s1) (Offset e1) content \<longrightarrow>
         map chunkSummary (chunks (processSpec e ti fp content md tok emptyState
            (s1, e1, TypeSpec name tps ty))) =
           [(Some (S name), Some (S (typeCategory ty)), Some (I (Line s1)), Some (I (Line e1)))]
         \<and> map (\<lambda>c. (Metadata c ''entity_name'', Metadata c ''start_line'', Metadata c ''end_line''))
            (chunks (processSpec e ti fp content md tok emptyState (s1, e1, ValueSpec names vty vals))) =
           [(Some (S (Join names '', '')), Some (I (Line s1)), Some (I (Line e1)))])
    \<and> (tok \<noteq> TokIMPORT \<and> \<not> invalidOffsets (Offset sA) (Offset eA) content
         \<and> \<not> invalidOffsets (Offset sB) (Offset eB) content \<longrightarrow>
         map chunkSummary (chunks (processDecl e ti pn fp content emptyState
            (s, e', GenDecl tok [(sA, eA, TypeSpec ''A'' [] (StructType fa)),
                                 (sB, eB, TypeSpec ''B'' [] (InterfaceType fb))]))) =
           [(Some (S ''A''), Some (S ''struct''), Some (I (Line sA)), Some (I (Line eA))),
            (Some (S ''B''), Some (S ''interface''), Some (I (Line sB)), Some (I (Line eB)))])"
proof (intro conjI impI)
  show "processDecl e ti pn fp content st (s, e', GenDecl TokIMPORT specs) = st"
    using assms by (rule processDecl_import)
  show "chunks (processDecl e ti pn fp content emptyState (s, e', GenDecl tok specs)) =
           concat (map (\<lambda>sp. chunks (processSpec e ti fp content
             [''file_path'' \<mapsto> S fp, ''package_name'' \<mapsto> S pn] tok emptyState sp)) specs)"
    if "tok \<noteq> TokIMPORT"
    using assms that by (rule processDecl_group)
  show "chunks (processSpec e ti fp content md tok emptyState (s1, e1, ImportSpec)) = []"
    by (rule processSpec_import)
  show "map chunkSummary (chunks (processSpec e ti fp content md tok emptyState
            (s1, e1, TypeSpec name tps ty))) =
           [(Some (S name), Some (S (typeCategory ty)), Some (I (Line s1)), Some (I (Line e1)))]"
    if "\<not> invalidOffsets (Offset s1) (Offset e1) content"
    using that by (rule processSpec_type)
  show "map (\<lambda>c. (Metadata c ''entity_name'', Metadata c ''start_line'', Metadata c ''end_line''))
            (chunks (processSpec e ti fp content md tok emptyState (s1, e1, ValueSpec names vty vals))) =
           [(Some (S (Join names '', '')), Some (I (Line s1)), Some (I (Line e1)))]"
    if "\<not> invalidOffsets (Offset s1) (Offset e1) content"
    using that by (rule processSpec_value)
  show "map chunkSummary (chunks (processDecl e ti pn fp content emptyState
            (s, e', GenDecl tok [(sA, eA, TypeSpec ''A'' [] (StructType fa)),
                                 (sB, eB, TypeSpec ''B'' [] (InterfaceType fb))]))) =
           [(Some (S ''A''), Some (S ''struct''), Some (I (Line sA)), Some (I (Line eA))),
            (Some (S ''B''), Some (S ''interface''), Some (I (Line sB)), Some (I (Line eB)))]"
    if "tok \<noteq> TokIMPORT \<and> \<not> invalidOffsets (Offset sA) (Offset eA) content
         \<and> \<not> invalidOffsets (Offset sB) (Offset eB) content"
    using that processSpec_type[of sA eA content e ti fp _ tok "''A''" "[]" "StructType fa"]
      processSpec_type[of sB eB content e ti fp _ tok "''B''" "[]" "InterfaceType fb"]
    by (simp add: processDecl_group[OF assms] typeCategory_def)
qed


theorem C6_one_chunk_per_spec_witness:
  "\<not> invalidOffsets (Offset (mkPos 23 3)) (Offset (mkPos 58 6)) groupContent
   \<and> \<not> invalidOffsets (Offset (mkPos 31 4)) (Offset (mkPos 41 4)) groupContent
   \<and> \<not> invalidOffsets (Offset (mkPos 43 5)) (Offset (mkPos 56 5)) groupContent
   \<and> TokTYPE \<noteq> TokIMPORT
   \<and> map chunkSummary (chunks (processDecl goneEnv noInfo ''p'' ''group.go'' groupContent emptyState
        groupDecl)) =
       [(Some (S ''A''), Some (S ''struct''), Some (I 4), Some (I 4)),
        (Some (S ''B''), Some (S ''interface''), Some (I 5), Some (I 5))]
   \<and> map chunkSummary (chunks (processSpec goneEnv noInfo ''group.go'' groupContent Map.empty TokTYPE
        emptyState (mkPos 31 4, mkPos 41 4, TypeSpec ''A'' [] (StructType [])))) =
       [(Some (S ''A''), Some (S ''struct''), Some (I 4), Some (I 4))]
   \<and> map (\<lambda>c. (Metadata c ''entity_name'', Metadata c ''start_line'', Metadata c ''end_line''))
        (chunks (processSpec goneEnv noInfo ''group.go'' groupContent Map.empty TokTYPE
        emptyState (mkPos 31 4, mkPos 41 4, ValueSpec [''x'', ''y''] NilNode []))) =
       [(Some (S ''x, y''), Some (I 4), Some (I 4))]
   \<and> processDecl goneEnv noInfo ''p'' ''group.go'' groupContent emptyState
        (mkPos 23 3, mkPos 58 6, GenDecl TokIMPORT [(mkPos 31 4, mkPos 41 4, ImportSpec)]) = emptyState"
proof -
  have v: "\<not> invalidOffsets (Offset (mkPos 23 3)) (Offset (mkPos 58 6)) groupContent"
    by code_simp
  have vA: "\<not> invalidOffsets (Offset (mkPos 31 4)) (Offset (mkPos 41 4)) groupContent"
    by code_simp
  have vB: "\<not> invalidOffsets (Offset (mkPos 43 5)) (Offset (mkPos 56 5)) groupContent"
    by code_simp
  have t: "TokTYPE \<noteq> TokIMPORT" by simp
  note inst = C6_one_chunk_per_spec[OF v, where e = goneEnv and ti = noInfo and pn = "''p''"
      and fp = "''group.go''" and st = emptyState
      and specs = "[(mkPos 31 4, mkPos 41 4, ImportSpec)]" and tok = TokTYPE and md = Map.empty
      and ?s1.0 = "mkPos 31 4" and ?e1.0 = "mkPos 41 4" and name = "''A''" and ty = "StructType []"
      and names = "[''x'', ''y'']" and vty = NilNode and vals = "[]"
      and sA = "mkPos 31 4" and eA = "mkPos 41 4" and sB = "mkPos 43 5" and eB = "mkPos 56 5"
      and fa = "[]" and fb = "[]"]
  have l: "Line (mkPos 31 4) = 4" "Line (mkPos 41 4) = 4" "Line (mkPos 43 5) = 5"
    "Line (mkPos 56 5) = 5" "typeCategory (StructType []) = ''struct''"
    "Join [''x'', ''y''] '', '' = ''x, y''"
    by (simp_all add: mkPos_def typeCategory_def)
  from inst v vA vB t show ?thesis
    unfolding groupDecl_def l by blast
qed

text \<open>The inferred type of a value spec is the type recorded for its first value.\<close>

lemma inferred_types_of_literals:
  "map (\<lambda>c. (docID c, Document c, Metadata c ''declaration_kind'', Metadata c ''inferred_type''))
     (resultChunks (processGoProject litEnv ''.'')) =
   [(''lit.go:2-2-a'', ''a = 1'', Some (S ''var''), Some (S ''int'')),
    (''lit.go:3-3-c'', ''c = 1'', Some (S ''const''), Some (S ''untyped int''))]"
  by code_simp

section \<open>Chunk ids\<close>

lemma digitChar_inj: "a < 10 \<Longrightarrow> b < 10 \<Longrightarrow> digitChar a = digitChar b \<Longrightarrow> a = b"
proof -
  assume a: "a < 10" and b: "b < 10" and eq: "digitChar a = digitChar b"
  have d: "distinct ''0123456789''" by simp
  from a b eq have "''0123456789'' ! a = ''0123456789'' ! b"
    by (simp add: digitChar_def)
  with a b show "a = b"
    using nth_eq_iff_index_eq[OF d, of a b] by simp
qed

lemma digitChar_not_minus: "digitChar d \<noteq> CHR ''-''"
proof -
  have "d mod 10 < length ''0123456789''" by simp
  then have "''0123456789'' ! (d mod 10) \<in> set ''0123456789''"
    by (rule nth_mem)
  then show ?thesis
    unfolding digitChar_def by auto
qed

lemma digits_nonempty: "digits n \<noteq> []"
  by (subst digits.simps) simp

lemma digits_no_minus: "CHR ''-'' \<notin> set (digits n)"
proof (induction n rule: digits.induct)
  case (1 n)
  show ?case
  proof (cases "n < 10")
    case True
    then show ?thesis
      using digitChar_not_minus[of n] by (subst digits.simps) auto
  next
    case False
    with 1 show ?thesis
      using digitChar_not_minus[of "n mod 10"] by (subst digits.simps) auto
  qed
qed

lemma digits_inj: "digits m = digits n \<Longrightarrow> m = n"
proof (induction m arbitrary: n rule: digits.induct)
  case (1 m)
  show ?case
  proof (cases "m < 10")
    case m: True
    show ?thesis
    proof (cases "n < 10")
      case True
      with m "1.prems" have "digitChar m = digitChar n"
        by (simp add: digits.simps[of m] digits.simps[of n])
      with m True show ?thesis by (rule digitChar_inj)
    next
      case False
      with m "1.prems" have "[digitChar m] = digits (n div 10) @ [digitChar (n mod 10)]"
        by (simp add: digits.simps[of m] digits.simps[of n])
      then have "digits (n div 10) = []" by simp
      with digits_nonempty show ?thesis by blast
    qed
  next
    case m: False
    show ?thesis
    proof (cases "n < 10")
      case True
      with m "1.prems" have "digits (m div 10) @ [digitChar (m mod 10)] = [digitChar n]"
        by (simp add: digits.simps[of m] digits.simps[of n])
      then have "digits (m div 10) = []" by simp
      with digits_nonempty show ?thesis by blast
    next
      case False
      with m "1.prems"
      have "digits (m div 10) @ [digitChar (m mod 10)] = digits (n div 10) @ [digitChar (n mod 10)]"
        by (simp add: digits.simps[of m] digits.simps[of n])
      then have a: "digits (m div 10) = digits (n div 10)"
        and b: "digitChar (m mod 10) = digitChar (n mod 10)"
        by simp_all
      from "1.IH"[OF m a] have "m div 10 = n div 10" .
      moreover from b have "m mod 10 = n mod 10"
        by (intro digitChar_inj) simp_all
      ultimately show ?thesis
        by (metis div_mult_mod_eq)
    qed
  qed
qed

lemma takeWhile_upto_minus:
  assumes "CHR ''-'' \<notin> set xs"
  shows "takeWhile (\<lambda>c. c \<noteq> CHR ''-'') (xs @ CHR ''-'' # r) = xs"
proof -
  from assms have "\<And>x. x \<in> set xs \<Longrightarrow> x \<noteq> CHR ''-''" by auto
  then have "takeWhile (\<lambda>c. c \<noteq> CHR ''-'') (xs @ CHR ''-'' # r) =
      xs @ takeWhile (\<lambda>c. c \<noteq> CHR ''-'') (CHR ''-'' # r)"
    by (rule takeWhile_append2)
  then show ?thesis by simp
qed

lemma split_at_minus:
  assumes "xs @ CHR ''-'' # r = ys @ CHR ''-'' # r'"
    and "CHR ''-'' \<notin> set xs" and "CHR ''-'' \<notin> set ys"
  shows "xs = ys \<and> r = r'"
proof -
  have "xs = takeWhile (\<lambda>c. c \<noteq> CHR ''-'') (xs @ CHR ''-'' # r)"
    by (rule takeWhile_upto_minus[OF assms(2), symmetric])
  also have "\<dots> = takeWhile (\<lambda>c. c \<noteq> CHR ''-'') (ys @ CHR ''-'' # r')"
    by (simp only: assms(1))
  also have "\<dots> = ys"
    by (rule takeWhile_upto_minus[OF assms(3)])
  finally have "xs = ys" .
  with assms(1) show ?thesis by simp
qed

lemma Itoa_split:
  assumes "Itoa a @ CHR ''-'' # r = Itoa b @ CHR ''-'' # r'"
  shows "a = b \<and> r = r'"
proof -
  have hd_digit: "hd (digits n) \<noteq> CHR ''-''" for n
    using digits_no_minus[of n] digits_nonempty[of n] hd_in_set by metis
  consider (nn) "a < 0" "b < 0" | (np) "a < 0" "\<not> b < 0" | (pn) "\<not> a < 0" "b < 0"
    | (pp) "\<not> a < 0" "\<not> b < 0"
    by blast
  then show ?thesis
  proof cases
    case nn
    with assms have "digits (nat (- a)) @ CHR ''-'' # r = digits (nat (- b)) @ CHR ''-'' # r'"
      by (simp add: Itoa_def)
    from split_at_minus[OF this digits_no_minus digits_no_minus]
    have "digits (nat (- a)) = digits (nat (- b))" and r: "r = r'" by simp_all
    then have "nat (- a) = nat (- b)" by (intro digits_inj)
    with nn r show ?thesis by simp
  next
    case np
    with assms have "CHR ''-'' # digits (nat (- a)) @ CHR ''-'' # r = digits (nat b) @ CHR ''-'' # r'"
      by (simp add: Itoa_def)
    then have "hd (digits (nat b) @ CHR ''-'' # r') = CHR ''-''"
      by (metis list.sel(1))
    with hd_digit[of "nat b"] digits_nonempty[of "nat b"] show ?thesis
      by simp
  next
    case pn
    with assms have "digits (nat a) @ CHR ''-'' # r = CHR ''-'' # digits (nat (- b)) @ CHR ''-'' # r'"
      by (simp add: Itoa_def)
    then have "hd (digits (nat a) @ CHR ''-'' # r) = CHR ''-''"
      by (metis list.sel(1))
    with hd_digit[of "nat a"] digits_nonempty[of "nat a"] show ?thesis
      by simp
  next
    case pp
    with assms have "digits (nat a) @ CHR ''-'' # r = digits (nat b) @ CHR ''-'' # r'"
      by (simp add: Itoa_def)
    from split_at_minus[OF this digits_no_minus digits_no_minus]
    have "digits (nat a) = digits (nat b)" and r: "r = r'" by simp_all
    then have "nat a = nat b" by (intro digits_inj)
    with pp r show ?thesis by simp
  qed
qed

lemma chunkID_inj:
  "chunkID fp s e n = chunkID fp s' e' n' \<longleftrightarrow> s = s' \<and> e = e' \<and> n = n'"
proof
  assume "chunkID fp s e n = chunkID fp s' e' n'"
  then have "Itoa s @ CHR ''-'' # (Itoa e @ CHR ''-'' # n) =
      Itoa s' @ CHR ''-'' # (Itoa e' @ CHR ''-'' # n')"
    by (simp add: chunkID_def)
  from Itoa_split[OF this] have s: "s = s'"
    and "Itoa e @ CHR ''-'' # n = Itoa e' @ CHR ''-'' # n'" by simp_all
  from Itoa_split[OF this(2)] s show "s = s' \<and> e = e' \<and> n = n'" by simp
qed simp

lemma chunkIDV1_inj:
  "chunkIDV1 fp s e = chunkIDV1 fp s' e' \<longleftrightarrow> s = s' \<and> e = e'"
proof
  assume "chunkIDV1 fp s e = chunkIDV1 fp s' e'"
  then have "Itoa s @ CHR ''-'' # (Itoa e @ CHR ''-'' # []) =
      Itoa s' @ CHR ''-'' # (Itoa e' @ CHR ''-'' # [])"
    by (simp add: chunkIDV1_def)
  from Itoa_split[OF this] have s: "s = s'"
    and "Itoa e @ CHR ''-'' # [] = Itoa e' @ CHR ''-'' # []" by simp_all
  from Itoa_split[OF this(2)] s show "s = s' \<and> e = e'" by simp
qed simp


text \<open>
  C8, as stated, fails: two declarations of one file that start and end on the same lines
  and have the same name get the same id. Go allows several \<open>init\<close> functions in a file,
  and several declarations on a line.
\<close>

theorem C8_same_line_same_name:
  "map (\<lambda>c. (docID c, Document c)) (resultChunks (processGoProject dupEnv ''.'')) =
     [(''dup.go:2-2-init'', ''func init() {}''), (''dup.go:2-2-init'', ''func init() {}'')]
   \<and> \<not> distinct (map docID (resultChunks (processGoProject dupEnv ''.'')))"
  by code_simp

lemma declaredName_method:
  "Metadata c ''entity_name'' = Some (S (r @ ''.'' @ n)) \<Longrightarrow>
   Metadata c ''receiver_type'' = Some (S r) \<Longrightarrow> declaredName c = Some n"
  by (simp add: declaredName_def)

lemma declaredName_plain:
  "Metadata c ''entity_name'' = Some (S n) \<Longrightarrow>
   Metadata c ''receiver_type'' = None \<Longrightarrow> declaredName c = Some n"
  by (simp add: declaredName_def)

lemma processDecl_func:
  assumes "\<not> invalidOffsets (Offset s) (Offset e') content"
  shows "map (\<lambda>c. (docID c, declaredName c, Metadata c ''entity_name'',
             Metadata c ''start_line'', Metadata c ''end_line''))
      (chunks (processDecl e ti pn fp content emptyState
         (s, e', FuncDecl recv name tps ps rs body))) =
    [(chunkID fp (Line s) (Line e') name, Some name,
      Some (S (case recv of [] \<Rightarrow> name
               | r # rest \<Rightarrow> getTypeString (Fprint e) (fieldType r) ti @ ''.'' @ name)),
      Some (I (Line s)), Some (I (Line e')))]"
  using assms
  by (cases recv) (simp_all add: processDecl_def Let_def declaredName_def)

lemma processSpec_type_id:
  assumes "\<not> invalidOffsets (Offset s) (Offset e') content"
    and "md ''receiver_type'' = None"
  shows "map (\<lambda>c. (docID c, declaredName c, Metadata c ''entity_name'',
             Metadata c ''start_line'', Metadata c ''end_line''))
      (chunks (processSpec e ti fp content md tok emptyState (s, e', TypeSpec name tps ty))) =
    [(chunkID fp (Line s) (Line e') name, Some name, Some (S name),
      Some (I (Line s)), Some (I (Line e')))]"
  using assms by (simp add: processSpec_def Let_def declaredName_def)

lemma processSpec_value_id:
  assumes "\<not> invalidOffsets (Offset s) (Offset e') content"
    and "md ''receiver_type'' = None"
  shows "map (\<lambda>c. (docID c, declaredName c, Metadata c ''entity_name'',
             Metadata c ''start_line'', Metadata c ''end_line''))
      (chunks (processSpec e ti fp content md tok emptyState (s, e', ValueSpec names ty vals))) =
    [(chunkID fp (Line s) (Line e') (Join names '', ''), Some (Join names '', ''),
      Some (S (Join names '', '')), Some (I (Line s)), Some (I (Line e')))]"
  using assms
  by (simp add: processSpec_def Let_def declaredName_def split: list.splits option.splits)


lemma processSpec_idkey:
  assumes "c \<in> set (chunks (processSpec e ti fp content md tok emptyState sp))"
    and "md ''file_path'' = Some (S fp)" and "md ''receiver_type'' = None"
  shows "\<exists>sl el n. Metadata c ''file_path'' = Some (S fp)
    \<and> Metadata c ''start_line'' = Some (I sl) \<and> Metadata c ''end_line'' = Some (I el)
    \<and> declaredName c = Some n \<and> docID c = chunkID fp sl el n"
proof -
  obtain s e' x where sp: "sp = (s, e', x)" by (cases sp)
  show ?thesis
  proof (cases "invalidOffsets (Offset s) (Offset e') content")
    case True
    with assms show ?thesis by (simp add: sp processSpec_invalid)
  next
    case False
    with assms show ?thesis
      by (cases x)
        (auto simp: sp processSpec_def Let_def declaredName_def
          split: if_splits list.splits option.splits)
  qed
qed

lemma processDecl_idkey:
  assumes "c \<in> set (chunks (processDecl e ti pn fp content emptyState d))"
  shows "\<exists>sl el n. Metadata c ''file_path'' = Some (S fp)
    \<and> Metadata c ''start_line'' = Some (I sl) \<and> Metadata c ''end_line'' = Some (I el)
    \<and> declaredName c = Some n \<and> docID c = chunkID fp sl el n"
proof -
  obtain s e' x where d: "d = (s, e', x)" by (cases d)
  show ?thesis
  proof (cases "invalidOffsets (Offset s) (Offset e') content")
    case True
    with assms show ?thesis by (simp add: d processDecl_invalid)
  next
    case valid: False
    show ?thesis
    proof (cases x)
      case (FuncDecl recv name tparams params results body)
      with assms valid show ?thesis
        by (cases recv) (auto simp: d processDecl_def Let_def declaredName_def)
    next
      case (GenDecl tok specs)
      let ?md = "[''file_path'' \<mapsto> S fp, ''package_name'' \<mapsto> S pn]"
      from assms valid GenDecl
      have "c \<in> set (chunks (foldl (processSpec e ti fp content ?md tok) emptyState specs))"
        by (auto simp: d processDecl_def Let_def split: if_splits)
      then obtain sp where "c \<in> set (chunks (processSpec e ti fp content ?md tok emptyState sp))"
        by (auto simp: appendOnly_foldl_chunks[OF appendOnly_processSpec])
      then show ?thesis
        by (rule processSpec_idkey) simp_all
    next
      case BadDecl
      with assms valid show ?thesis by (simp add: d processDecl_def Let_def)
    qed
  qed
qed

lemma result_chunk_decl:
  assumes "c \<in> set (resultChunks (processGoProject e projectPath))"
  shows "\<exists>ti pn fp content d. c \<in> set (chunks (processDecl e ti pn fp content emptyState d))"
proof -
  from assms obtain pkgs where ld: "Load e projectPath = Inr pkgs"
    by (cases "Load e projectPath") (simp_all add: resultChunks_def processGoProject_def Let_def)
  with assms obtain pkg where c1: "c \<in> set (chunks (processPackage e emptyState pkg))"
    by (auto simp: resultChunks_def processGoProject_chunks)
  then obtain ti files where ti: "TypesInfo pkg = Some ti" and files: "Syntax pkg = Some files"
    by (cases "TypesInfo pkg"; cases "Syntax pkg") (simp_all add: processPackage_chunks)
  with c1 obtain f where c2: "c \<in> set (chunks (processFile e ti (pkgName pkg) emptyState f))"
    by (cases "Fset pkg") (auto simp: processPackage_chunks)
  then obtain content where rd: "ReadFile e (fileName f) = Inr content"
    by (cases "ReadFile e (fileName f)") (simp_all add: processFile_chunks)
  with c2 obtain d where
    "c \<in> set (chunks (processDecl e ti (pkgName pkg) (fileName f) content emptyState d))"
    by (auto simp: processFile_chunks)
  then show ?thesis by blast
qed

lemma result_idkey:
  assumes "c \<in> set (resultChunks (processGoProject e projectPath))"
  shows "\<exists>fp sl el n. Metadata c ''file_path'' = Some (S fp)
    \<and> Metadata c ''start_line'' = Some (I sl) \<and> Metadata c ''end_line'' = Some (I el)
    \<and> declaredName c = Some n \<and> docID c = chunkID fp sl el n"
proof -
  from result_chunk_decl[OF assms] obtain ti pn fp content d
    where "c \<in> set (chunks (processDecl e ti pn fp content emptyState d))" by blast
  from processDecl_idkey[OF this] show ?thesis by blast
qed

lemma same_id_iff:
  assumes "Metadata c1 ''file_path'' = Some (S fp)" "Metadata c1 ''start_line'' = Some (I sl1)"
    "Metadata c1 ''end_line'' = Some (I el1)" "declaredName c1 = Some n1"
    "docID c1 = chunkID fp sl1 el1 n1"
    and "Metadata c2 ''file_path'' = Some (S fp)" "Metadata c2 ''start_line'' = Some (I sl2)"
    "Metadata c2 ''end_line'' = Some (I el2)" "declaredName c2 = Some n2"
    "docID c2 = chunkID fp sl2 el2 n2"
  shows "docID c1 = docID c2 \<longleftrightarrow>
    Metadata c1 ''start_line'' = Metadata c2 ''start_line''
    \<and> Metadata c1 ''end_line'' = Metadata c2 ''end_line''
    \<and> declaredName c1 = declaredName c2"
  using assms chunkID_inj[of fp sl1 el1 n1 sl2 el2 n2] by simp

lemma result_same_id:
  assumes "c1 \<in> set (resultChunks (processGoProject e projectPath))"
    and "c2 \<in> set (resultChunks (processGoProject e projectPath))"
    and "Metadata c1 ''file_path'' = Metadata c2 ''file_path''"
  shows "docID c1 = docID c2 \<longleftrightarrow>
    Metadata c1 ''start_line'' = Metadata c2 ''start_line''
    \<and> Metadata c1 ''end_line'' = Metadata c2 ''end_line''
    \<and> declaredName c1 = declaredName c2"
proof -
  from result_idkey[OF assms(1)] obtain fp sl1 el1 n1 where
    a: "Metadata c1 ''file_path'' = Some (S fp)" "Metadata c1 ''start_line'' = Some (I sl1)"
    "Metadata c1 ''end_line'' = Some (I el1)" "declaredName c1 = Some n1"
    "docID c1 = chunkID fp sl1 el1 n1" by blast
  from result_idkey[OF assms(2)] obtain fp' sl2 el2 n2 where
    b: "Metadata c2 ''file_path'' = Some (S fp')" "Metadata c2 ''start_line'' = Some (I sl2)"
    "Metadata c2 ''end_line'' = Some (I el2)" "declaredName c2 = Some n2"
    "docID c2 = chunkID fp' sl2 el2 n2" by blast
  from a(1) b(1) assms(3) have "fp' = fp" by simp
  with b have b': "Metadata c2 ''file_path'' = Some (S fp)" "docID c2 = chunkID fp sl2 el2 n2"
    by simp_all
  from a b' b(2,3,4) show ?thesis by (intro same_id_iff)
qed


lemma appendOnly_processDeclV1: "appendOnly (processDeclV1 e ti packageName filePath content)"
  unfolding appendOnly_def
proof (intro allI)
  fix st :: state and d :: "Position \<times> Position \<times> decl"
  obtain s e' x where d: "d = (s, e', x)" by (cases d)
  show "processDeclV1 e ti packageName filePath content st d =
      addOutput st (processDeclV1 e ti packageName filePath content emptyState d)"
    unfolding d processDeclV1_def Let_def prod.case
    by (cases x; cases "invalidOffsets (Offset s) (Offset e') content")
      (simp_all only: decl.case if_True if_False logPrint_addOutput[of _ st]
        appendChunk_addOutput[of _ st] addOutput_empty)
qed

lemma appendOnly_processFileV1: "appendOnly (processFileV1 e ti packageName)"
  unfolding appendOnly_def
proof (intro allI)
  fix st :: state and f :: sourceFile
  note dd = appendOnly_foldl[OF appendOnly_processDeclV1, of _ _ _ _ _ st]
  show "processFileV1 e ti packageName st f =
      addOutput st (processFileV1 e ti packageName emptyState f)"
    unfolding processFileV1_def Let_def
    by (cases "ReadFile e (fileName f)")
      (simp_all only: sum.case logPrint_addOutput[of _ st] dd)
qed

lemma appendOnly_processPackageV1: "appendOnly (processPackageV1 e)"
  unfolding appendOnly_def
proof (intro allI)
  fix st :: state and pkg :: package
  note ff = appendOnly_foldl[OF appendOnly_processFileV1, of _ _ _ st]
  show "processPackageV1 e st pkg = addOutput st (processPackageV1 e emptyState pkg)"
    unfolding processPackageV1_def
    by (cases "TypesInfo pkg"; cases "Syntax pkg"; cases "Fset pkg")
      (simp_all only: prod.case option.case logPrint_addOutput[of _ st] ff)
qed

lemma processFileV1_chunks:
  "chunks (processFileV1 e ti pn emptyState f) =
     (case ReadFile e (fileName f) of
        Inl err \<Rightarrow> []
      | Inr content \<Rightarrow>
          concat (map (\<lambda>d. chunks (processDeclV1 e ti pn (fileName f) content emptyState d)) (Decls f)))"
  by (simp add: processFileV1_def Let_def appendOnly_foldl_chunks[OF appendOnly_processDeclV1]
      split: sum.splits)

lemma processPackageV1_chunks:
  "chunks (processPackageV1 e emptyState pkg) =
     (case (TypesInfo pkg, Syntax pkg, Fset pkg) of
        (Some ti, Some files, Some fset) \<Rightarrow>
          concat (map (\<lambda>f. chunks (processFileV1 e ti (pkgName pkg) emptyState f)) files)
      | _ \<Rightarrow> [])"
  by (simp add: processPackageV1_def appendOnly_foldl_chunks[OF appendOnly_processFileV1]
      split: option.splits)

lemma processGoProjectV1_chunks:
  assumes "Load e projectPath = Inr pkgs"
  shows "snd (processGoProjectV1 e projectPath) =
    Inr (concat (map (\<lambda>pkg. chunks (processPackageV1 e emptyState pkg)) pkgs))"
proof -
  have "chunks (foldl (processPackageV1 e) st pkgs) =
      chunks st @ concat (map (\<lambda>pkg. chunks (processPackageV1 e emptyState pkg)) pkgs)" for st
    by (subst appendOnly_foldl[OF appendOnly_processPackageV1])
      (simp add: appendOnly_foldl_chunks[OF appendOnly_processPackageV1])
  with assms show ?thesis
    by (simp add: processGoProjectV1_def Let_def)
qed

lemma processDeclV1_idkey:
  assumes "c \<in> set (chunks (processDeclV1 e ti pn fp content emptyState d))"
  shows "\<exists>sl el. Metadata c ''file_path'' = Some (S fp)
    \<and> Metadata c ''start_line'' = Some (I sl) \<and> Metadata c ''end_line'' = Some (I el)
    \<and> docID c = chunkIDV1 fp sl el"
proof -
  obtain s e' x where d: "d = (s, e', x)" by (cases d)
  show ?thesis
  proof (cases x)
    case (FuncDecl recv name tparams params results body)
    with assms show ?thesis
      by (cases recv; cases "invalidOffsets (Offset s) (Offset e') content")
        (auto simp: d processDeclV1_def Let_def)
  next
    case (GenDecl tok specs)
    with assms show ?thesis by (simp add: d processDeclV1_def)
  next
    case BadDecl
    with assms show ?thesis by (simp add: d processDeclV1_def)
  qed
qed

lemma resultV1_idkey:
  assumes "c \<in> set (resultChunks (processGoProjectV1 e projectPath))"
  shows "\<exists>fp sl el. Metadata c ''file_path'' = Some (S fp)
    \<and> Metadata c ''start_line'' = Some (I sl) \<and> Metadata c ''end_line'' = Some (I el)
    \<and> docID c = chunkIDV1 fp sl el"
proof -
  from assms obtain pkgs where ld: "Load e projectPath = Inr pkgs"
    by (cases "Load e projectPath") (simp_all add: resultChunks_def processGoProjectV1_def Let_def)
  with assms obtain pkg where c1: "c \<in> set (chunks (processPackageV1 e emptyState pkg))"
    by (auto simp: resultChunks_def processGoProjectV1_chunks)
  then obtain ti files where ti: "TypesInfo pkg = Some ti" and files: "Syntax pkg = Some files"
    by (cases "TypesInfo pkg"; cases "Syntax pkg") (simp_all add: processPackageV1_chunks)
  with c1 obtain f where c2: "c \<in> set (chunks (processFileV1 e ti (pkgName pkg) emptyState f))"
    by (cases "Fset pkg") (auto simp: processPackageV1_chunks)
  then obtain content where rd: "ReadFile e (fileName f) = Inr content"
    by (cases "ReadFile e (fileName f)") (simp_all add: processFileV1_chunks)
  with c2 obtain d where
    "c \<in> set (chunks (processDeclV1 e ti (pkgName pkg) (fileName f) content emptyState d))"
    by (auto simp: processFileV1_chunks)
  from processDeclV1_idkey[OF this] show ?thesis by blast
qed

lemma resultV1_same_id:
  assumes "c1 \<in> set (resultChunks (processGoProjectV1 e projectPath))"
    and "c2 \<in> set (resultChunks (processGoProjectV1 e projectPath))"
    and "Metadata c1 ''file_path'' = Metadata c2 ''file_path''"
  shows "docID c1 = docID c2 \<longleftrightarrow>
    Metadata c1 ''start_line'' = Metadata c2 ''start_line''
    \<and> Metadata c1 ''end_line'' = Metadata c2 ''end_line''"
proof -
  from resultV1_idkey[OF assms(1)] obtain fp sl1 el1 where
    a: "Metadata c1 ''file_path'' = Some (S fp)" "Metadata c1 ''start_line'' = Some (I sl1)"
    "Metadata c1 ''end_line'' = Some (I el1)" "docID c1 = chunkIDV1 fp sl1 el1" by blast
  from resultV1_idkey[OF assms(2)] obtain fp' sl2 el2 where
    b: "Metadata c2 ''file_path'' = Some (S fp')" "Metadata c2 ''start_line'' = Some (I sl2)"
    "Metadata c2 ''end_line'' = Some (I el2)" "docID c2 = chunkIDV1 fp' sl2 el2" by blast
  from a(1) b(1) assms(3) have "fp' = fp" by simp
  with a b chunkIDV1_inj[of fp sl1 el1 sl2 el2] show ?thesis by simp
qed

lemma processDeclV1_func:
  assumes "\<not> invalidOffsets (Offset s) (Offset e') content"
  shows "map (\<lambda>c. (docID c, Metadata c ''start_line'', Metadata c ''end_line''))
      (chunks (processDeclV1 e ti pn fp content emptyState
         (s, e', FuncDecl recv name tps ps rs body))) =
    [(chunkIDV1 fp (Line s) (Line e'), Some (I (Line s)), Some (I (Line e')))]"
  using assms
  by (cases recv) (simp_all add: processDeclV1_def Let_def)


text \<open>
  C8, amended. The id of every chunk is built from four components that its metadata
  records: the file path, the start line, the end line, and the declared name, which is the
  entity name except for a method, whose entity name has the receiver type in front. So two
  chunks of one file have the same id exactly when they have the same start line, the same
  end line and the same declared name. A function declaration with a valid span yields one
  chunk whose id carries the lines and the name of the declaration, with or without a
  receiver; a type spec and a value spec likewise, the names of a value spec joined by a
  comma. The id of go\_ast\_parser.go has no name: there two chunks of one file have the
  same id exactly when they have the same start line and the same end line.
\<close>

theorem C8_same_id_iff_same_lines_and_declared_name:
  "(\<forall>c \<in> set (resultChunks (processGoProject e projectPath)).
      \<exists>filePath startLine endLine name.
        Metadata c ''file_path'' = Some (S filePath)
        \<and> Metadata c ''start_line'' = Some (I startLine)
        \<and> Metadata c ''end_line'' = Some (I endLine)
        \<and> declaredName c = Some name
        \<and> docID c = chunkID filePath startLine endLine name)
   \<and> (\<forall>c1 \<in> set (resultChunks (processGoProject e projectPath)).
       \<forall>c2 \<in> set (resultChunks (processGoProject e projectPath)).
         Metadata c1 ''file_path'' = Metadata c2 ''file_path'' \<longrightarrow>
         (docID c1 = docID c2 \<longleftrightarrow>
            Metadata c1 ''start_line'' = Metadata c2 ''start_line''
            \<and> Metadata c1 ''end_line'' = Metadata c2 ''end_line''
            \<and> declaredName c1 = declaredName c2))
   \<and> (\<not> invalidOffsets (Offset s) (Offset e') content \<longrightarrow>
        map (\<lambda>c. (docID c, declaredName c, Metadata c ''entity_name'',
               Metadata c ''start_line'', Metadata c ''end_line''))
          (chunks (processDecl e ti pn fp content emptyState
             (s, e', FuncDecl recv name tps ps rs body))) =
        [(chunkID fp (Line s) (Line e') name, Some name,
          Some (S (case recv of [] \<Rightarrow> name
                   | r # rest \<Rightarrow> getTypeString (Fprint e) (fieldType r) ti @ ''.'' @ name)),
          Some (I (Line s)), Some (I (Line e')))]
      \<and> map (\<lambda>c. (docID c, declaredName c, Metadata c ''entity_name'',
               Metadata c ''start_line'', Metadata c ''end_line''))
          (chunks (processSpec e ti fp content
             [''file_path'' \<mapsto> S fp, ''package_name'' \<mapsto> S pn] tok emptyState
             (s, e', TypeSpec name tps ty))) =
        [(chunkID fp (Line s) (Line e') name, Some name, Some (S name),
          Some (I (Line s)), Some (I (Line e')))]
      \<and> map (\<lambda>c. (docID c, declaredName c, Metadata c ''entity_name'',
               Metadata c ''start_line'', Metadata c ''end_line''))
          (chunks (processSpec e ti fp content
             [''file_path'' \<mapsto> S fp, ''package_name'' \<mapsto> S pn] tok emptyState
             (s, e', ValueSpec names vty vals))) =
        [(chunkID fp (Line s) (Line e') (Join names '', ''), Some (Join names '', ''),
          Some (S (Join names '', '')), Some (I (Line s)), Some (I (Line e')))])
   \<and> (\<forall>c \<in> set (resultChunks (processGoProjectV1 e projectPath)).
      \<exists>filePath startLine endLine.
        Metadata c ''file_path'' = Some (S filePath)
        \<and> Metadata c ''start_line'' = Some (I startLine)
        \<and> Metadata c ''end_line'' = Some (I endLine)
        \<and> docID c = chunkIDV1 filePath startLine endLine)
   \<and> (\<forall>c1 \<in> set (resultChunks (processGoProjectV1 e projectPath)).
       \<forall>c2 \<in> set (resultChunks (processGoProjectV1 e projectPath)).
         Metadata c1 ''file_path'' = Metadata c2 ''file_path'' \<longrightarrow>
         (docID c1 = docID c2 \<longleftrightarrow>
            Metadata c1 ''start_line'' = Metadata c2 ''start_line''
            \<and> Metadata c1 ''end_line'' = Metadata c2 ''end_line''))"
proof (intro conjI ballI impI)
  show "\<exists>filePath startLine endLine name.
        Metadata c ''file_path'' = Some (S filePath)
        \<and> Metadata c ''start_line'' = Some (I startLine)
        \<and> Metadata c ''end_line'' = Some (I endLine)
        \<and> declaredName c = Some name
        \<and> docID c = chunkID filePath startLine endLine name"
    if "c \<in> set (resultChunks (processGoProject e projectPath))" for c
    using that by (rule result_idkey)
  show "docID c1 = docID c2 \<longleftrightarrow>
            Metadata c1 ''start_line'' = Metadata c2 ''start_line''
            \<and> Metadata c1 ''end_line'' = Metadata c2 ''end_line''
            \<and> declaredName c1 = declaredName c2"
    if "c1 \<in> set (resultChunks (processGoProject e projectPath))"
      "c2 \<in> set (resultChunks (processGoProject e projectPath))"
      "Metadata c1 ''file_path'' = Metadata c2 ''file_path''" for c1 c2
    using that by (rule result_same_id)
  show "\<exists>filePath startLine endLine.
        Metadata c ''file_path'' = Some (S filePath)
        \<and> Metadata c ''start_line'' = Some (I startLine)
        \<and> Metadata c ''end_line'' = Some (I endLine)
        \<and> docID c = chunkIDV1 filePath startLine endLine"
    if "c \<in> set (resultChunks (processGoProjectV1 e projectPath))" for c
    using that by (rule resultV1_idkey)
  show "docID c1 = docID c2 \<longleftrightarrow>
            Metadata c1 ''start_line'' = Metadata c2 ''start_line''
            \<and> Metadata c1 ''end_line'' = Metadata c2 ''end_line''"
    if "c1 \<in> set (resultChunks (processGoProjectV1 e projectPath))"
      "c2 \<in> set (resultChunks (processGoProjectV1 e projectPath))"
      "Metadata c1 ''file_path'' = Metadata c2 ''file_path''" for c1 c2
    using that by (rule resultV1_same_id)
next
  assume v: "\<not> invalidOffsets (Offset s) (Offset e') content"
  show "map (\<lambda>c. (docID c, declaredName c, Metadata c ''entity_name'',
               Metadata c ''start_line'', Metadata c ''end_line''))
          (chunks (processDecl e ti pn fp content emptyState
             (s, e', FuncDecl recv name tps ps rs body))) =
        [(chunkID fp (Line s) (Line e') name, Some name,
          Some (S (case recv of [] \<Rightarrow> name
                   | r # rest \<Rightarrow> getTypeString (Fprint e) (fieldType r) ti @ ''.'' @ name)),
          Some (I (Line s)), Some (I (Line e')))]"
    using v by (rule processDecl_func)
  show "map (\<lambda>c. (docID c, declaredName c, Metadata c ''entity_name'',
               Metadata c ''start_line'', Metadata c ''end_line''))
          (chunks (processSpec e ti fp content
             [''file_path'' \<mapsto> S fp, ''package_name'' \<mapsto> S pn] tok emptyState
             (s, e', TypeSpec name tps ty))) =
        [(chunkID fp (Line s) (Line e') name, Some name, Some (S name),
          Some (I (Line s)), Some (I (Line e')))]"
    using v by (rule processSpec_type_id) simp
  show "map (\<lambda>c. (docID c, declaredName c, Metadata c ''entity_name'',
               Metadata c ''start_line'', Metadata c ''end_line''))
          (chunks (processSpec e ti fp content
             [''file_path'' \<mapsto> S fp, ''package_name'' \<mapsto> S pn] tok emptyState
             (s, e', ValueSpec names vty vals))) =
        [(chunkID fp (Line s) (Line e') (Join names '', ''), Some (Join names '', ''),
          Some (S (Join names '', '')), Some (I (Line s)), Some (I (Line e')))]"
    using v by (rule processSpec_value_id) simp
qed

lemma meth_result:
  "map (\<lambda>c. (docID c, Metadata c ''entity_name'', declaredName c,
          Metadata c ''file_path'', Metadata c ''start_line'', Metadata c ''end_line''))
     (resultChunks (processGoProject methEnv ''.'')) =
   [(''meth.go:2-2-M'', Some (S ''example.com/p.A.M''), Some ''M'',
       Some (S ''meth.go''), Some (I 2), Some (I 2)),
    (''meth.go:2-2-M'', Some (S ''example.com/p.B.M''), Some ''M'',
       Some (S ''meth.go''), Some (I 2), Some (I 2)),
    (''meth.go:3-3-N'', Some (S ''N''), Some ''N'',
       Some (S ''meth.go''), Some (I 3), Some (I 3))]"
  by code_simp

lemma meth_resultV1:
  "map (\<lambda>c. (docID c, Metadata c ''entity_name'',
          Metadata c ''file_path'', Metadata c ''start_line'', Metadata c ''end_line''))
     (resultChunks (processGoProjectV1 methEnv ''.'')) =
   [(''meth.go:2-2'', Some (S ''example.com/p.A.M''), Some (S ''meth.go''), Some (I 2), Some (I 2)),
    (''meth.go:2-2'', Some (S ''example.com/p.B.M''), Some (S ''meth.go''), Some (I 2), Some (I 2)),
    (''meth.go:3-3'', Some (S ''N''), Some (S ''meth.go''), Some (I 3), Some (I 3))]"
  by code_simp


lemma map_eq_nth: "map f xs = ys \<Longrightarrow> i < length ys \<Longrightarrow> xs ! i \<in> set xs \<and> f (xs ! i) = ys ! i"
  by auto

theorem C8_same_id_iff_same_lines_and_declared_name_witness:
  "resultChunks (processGoProject methEnv ''.'') ! 0 \<in> set (resultChunks (processGoProject methEnv ''.''))
   \<and> resultChunks (processGoProject methEnv ''.'') ! 1 \<in> set (resultChunks (processGoProject methEnv ''.''))
   \<and> resultChunks (processGoProject methEnv ''.'') ! 2 \<in> set (resultChunks (processGoProject methEnv ''.''))
   \<and> map (\<lambda>c. (docID c, Metadata c ''entity_name'', declaredName c,
          Metadata c ''file_path'', Metadata c ''start_line'', Metadata c ''end_line''))
        (resultChunks (processGoProject methEnv ''.'')) =
      [(''meth.go:2-2-M'', Some (S ''example.com/p.A.M''), Some ''M'',
          Some (S ''meth.go''), Some (I 2), Some (I 2)),
       (''meth.go:2-2-M'', Some (S ''example.com/p.B.M''), Some ''M'',
          Some (S ''meth.go''), Some (I 2), Some (I 2)),
       (''meth.go:3-3-N'', Some (S ''N''), Some ''N'',
          Some (S ''meth.go''), Some (I 3), Some (I 3))]
   \<and> Metadata (resultChunks (processGoProject methEnv ''.'') ! 0) ''file_path'' = Metadata (resultChunks (processGoProject methEnv ''.'') ! 1) ''file_path''
   \<and> Metadata (resultChunks (processGoProject methEnv ''.'') ! 0) ''file_path'' = Metadata (resultChunks (processGoProject methEnv ''.'') ! 2) ''file_path''
   \<and> docID (resultChunks (processGoProject methEnv ''.'') ! 0) = docID (resultChunks (processGoProject methEnv ''.'') ! 1)
   \<and> docID (resultChunks (processGoProject methEnv ''.'') ! 0) \<noteq> docID (resultChunks (processGoProject methEnv ''.'') ! 2)
   \<and> \<not> invalidOffsets (Offset (mkPos 10 2)) (Offset (mkPos 25 2)) methContent
   \<and> map (\<lambda>c. (docID c, declaredName c, Metadata c ''entity_name'',
          Metadata c ''start_line'', Metadata c ''end_line''))
        (chunks (processDecl methEnv methInfo ''p'' ''meth.go'' methContent emptyState
           (mkPos 10 2, mkPos 25 2, FuncDecl [Field [] (Ident ''A'' 1)] ''M'' [] [] [] emptyBody))) =
      [(''meth.go:2-2-M'', Some ''M'', Some (S ''example.com/p.A.M''), Some (I 2), Some (I 2))]
   \<and> map (\<lambda>c. (docID c, Metadata c ''entity_name'',
          Metadata c ''file_path'', Metadata c ''start_line'', Metadata c ''end_line''))
        (resultChunks (processGoProjectV1 methEnv ''.'')) =
      [(''meth.go:2-2'', Some (S ''example.com/p.A.M''), Some (S ''meth.go''), Some (I 2), Some (I 2)),
       (''meth.go:2-2'', Some (S ''example.com/p.B.M''), Some (S ''meth.go''), Some (I 2), Some (I 2)),
       (''meth.go:3-3'', Some (S ''N''), Some (S ''meth.go''), Some (I 3), Some (I 3))]
   \<and> resultChunks (processGoProjectV1 methEnv ''.'') ! 0 \<in> set (resultChunks (processGoProjectV1 methEnv ''.''))
   \<and> resultChunks (processGoProjectV1 methEnv ''.'') ! 1 \<in> set (resultChunks (processGoProjectV1 methEnv ''.''))
   \<and> Metadata (resultChunks (processGoProjectV1 methEnv ''.'') ! 0) ''file_path'' = Metadata (resultChunks (processGoProjectV1 methEnv ''.'') ! 1) ''file_path''
   \<and> docID (resultChunks (processGoProjectV1 methEnv ''.'') ! 0) = docID (resultChunks (processGoProjectV1 methEnv ''.'') ! 1)"
proof -
  note c8 = C8_same_id_iff_same_lines_and_declared_name[where e = methEnv
      and projectPath = "''.''" and s = "mkPos 10 2" and e' = "mkPos 25 2"
      and content = methContent and ti = methInfo and pn = "''p''" and fp = "''meth.go''"
      and recv = "[Field [] (Ident ''A'' 1)]" and name = "''M''" and tps = "[]" and ps = "[]"
      and rs = "[]" and body = emptyBody and tok = TokTYPE and ty = "StructType []"
      and names = "[]" and vty = NilNode and vals = "[]"]
  note k0 = map_eq_nth[OF meth_result, of 0]
  note k1 = map_eq_nth[OF meth_result, of 1]
  note k2 = map_eq_nth[OF meth_result, of 2]
  from k0 have m0: "resultChunks (processGoProject methEnv ''.'') ! 0 \<in> set (resultChunks (processGoProject methEnv ''.''))"
    and f0: "Metadata (resultChunks (processGoProject methEnv ''.'') ! 0) ''file_path'' = Some (S ''meth.go'')"
    and s0: "Metadata (resultChunks (processGoProject methEnv ''.'') ! 0) ''start_line'' = Some (I 2)"
    and e0: "Metadata (resultChunks (processGoProject methEnv ''.'') ! 0) ''end_line'' = Some (I 2)"
    and n0: "declaredName (resultChunks (processGoProject methEnv ''.'') ! 0) = Some ''M''"
    by simp_all
  from k1 have m1: "resultChunks (processGoProject methEnv ''.'') ! 1 \<in> set (resultChunks (processGoProject methEnv ''.''))"
    and f1: "Metadata (resultChunks (processGoProject methEnv ''.'') ! 1) ''file_path'' = Some (S ''meth.go'')"
    and s1: "Metadata (resultChunks (processGoProject methEnv ''.'') ! 1) ''start_line'' = Some (I 2)"
    and e1: "Metadata (resultChunks (processGoProject methEnv ''.'') ! 1) ''end_line'' = Some (I 2)"
    and n1: "declaredName (resultChunks (processGoProject methEnv ''.'') ! 1) = Some ''M''"
    by simp_all
  from k2 have m2: "resultChunks (processGoProject methEnv ''.'') ! 2 \<in> set (resultChunks (processGoProject methEnv ''.''))"
    and f2: "Metadata (resultChunks (processGoProject methEnv ''.'') ! 2) ''file_path'' = Some (S ''meth.go'')"
    and s2: "Metadata (resultChunks (processGoProject methEnv ''.'') ! 2) ''start_line'' = Some (I 3)"
    by simp_all
  from f0 f1 have f01: "Metadata (resultChunks (processGoProject methEnv ''.'') ! 0) ''file_path'' = Metadata (resultChunks (processGoProject methEnv ''.'') ! 1) ''file_path''"
    by simp
  from f0 f2 have f02: "Metadata (resultChunks (processGoProject methEnv ''.'') ! 0) ''file_path'' = Metadata (resultChunks (processGoProject methEnv ''.'') ! 2) ''file_path''"
    by simp
  note same = c8[THEN conjunct2, THEN conjunct1, THEN bspec, OF m0]
  from same[THEN bspec, OF m1, THEN mp, OF f01] s0 s1 e0 e1 n0 n1
  have id01: "docID (resultChunks (processGoProject methEnv ''.'') ! 0) = docID (resultChunks (processGoProject methEnv ''.'') ! 1)"
    by simp
  from same[THEN bspec, OF m2, THEN mp, OF f02] s0 s2
  have id02: "docID (resultChunks (processGoProject methEnv ''.'') ! 0) \<noteq> docID (resultChunks (processGoProject methEnv ''.'') ! 2)"
    by simp
  have valid: "\<not> invalidOffsets (Offset (mkPos 10 2)) (Offset (mkPos 25 2)) methContent"
    by code_simp
  have rhs: "[(chunkID ''meth.go'' (Line (mkPos 10 2)) (Line (mkPos 25 2)) ''M'', Some ''M'',
          Some (S (case [Field [] (Ident ''A'' 1)] of [] \<Rightarrow> ''M''
                   | r # rest \<Rightarrow>
                       getTypeString (Fprint methEnv) (fieldType r) methInfo @ ''.'' @ ''M'')),
          Some (I (Line (mkPos 10 2))), Some (I (Line (mkPos 25 2))))] =
      [(''meth.go:2-2-M'', Some ''M'', Some (S ''example.com/p.A.M''), Some (I 2), Some (I 2))]"
    by code_simp
  note decl = c8[THEN conjunct2, THEN conjunct2, THEN conjunct1, THEN mp, OF valid,
      THEN conjunct1, THEN trans, OF rhs]
  note j0 = map_eq_nth[OF meth_resultV1, of 0]
  note j1 = map_eq_nth[OF meth_resultV1, of 1]
  from j0 have w0: "resultChunks (processGoProjectV1 methEnv ''.'') ! 0 \<in> set (resultChunks (processGoProjectV1 methEnv ''.''))"
    and g0: "Metadata (resultChunks (processGoProjectV1 methEnv ''.'') ! 0) ''file_path'' = Some (S ''meth.go'')"
    and t0: "Metadata (resultChunks (processGoProjectV1 methEnv ''.'') ! 0) ''start_line'' = Some (I 2)"
    and u0: "Metadata (resultChunks (processGoProjectV1 methEnv ''.'') ! 0) ''end_line'' = Some (I 2)"
    by simp_all
  from j1 have w1: "resultChunks (processGoProjectV1 methEnv ''.'') ! 1 \<in> set (resultChunks (processGoProjectV1 methEnv ''.''))"
    and g1: "Metadata (resultChunks (processGoProjectV1 methEnv ''.'') ! 1) ''file_path'' = Some (S ''meth.go'')"
    and t1: "Metadata (resultChunks (processGoProjectV1 methEnv ''.'') ! 1) ''start_line'' = Some (I 2)"
    and u1: "Metadata (resultChunks (processGoProjectV1 methEnv ''.'') ! 1) ''end_line'' = Some (I 2)"
    by simp_all
  from g0 g1 have g01: "Metadata (resultChunks (processGoProjectV1 methEnv ''.'') ! 0) ''file_path'' = Metadata (resultChunks (processGoProjectV1 methEnv ''.'') ! 1) ''file_path''"
    by simp
  from c8[THEN conjunct2, THEN conjunct2, THEN conjunct2, THEN conjunct2,
      THEN bspec, OF w0, THEN bspec, OF w1, THEN mp, OF g01] t0 t1 u0 u1
  have idV1: "docID (resultChunks (processGoProjectV1 methEnv ''.'') ! 0) = docID (resultChunks (processGoProjectV1 methEnv ''.'') ! 1)"
    by simp
  from m0 m1 m2 meth_result f01 f02 id01 id02 valid decl meth_resultV1 w0 w1 g01 idV1
  show ?thesis by (intro conjI)
qed

section \<open>Replacing a pattern that ends in its only dot\<close>

lemma takeWhile_upto:
  assumes "a \<notin> set xs"
  shows "takeWhile (\<lambda>c. c \<noteq> a) (xs @ a # r) = xs"
proof -
  from assms have "\<And>x. x \<in> set xs \<Longrightarrow> x \<noteq> a" by auto
  then have "takeWhile (\<lambda>c. c \<noteq> a) (xs @ a # r) = xs @ takeWhile (\<lambda>c. c \<noteq> a) (a # r)"
    by (rule takeWhile_append2)
  then show ?thesis by simp
qed

lemma prefix_dot_pattern:
  assumes "CHR ''.'' \<notin> set k"
  shows "prefix (k @ ''.'') (u @ ''.'' @ rest) \<longleftrightarrow> prefix (k @ ''.'') (u @ ''.'')"
proof
  assume p: "prefix (k @ ''.'') (u @ ''.'' @ rest)"
  have "length k \<le> length u"
  proof (rule ccontr)
    assume "\<not> length k \<le> length u"
    then have lt: "length u < length k" by simp
    from p obtain zs where "u @ ''.'' @ rest = (k @ ''.'') @ zs"
      by (auto simp: prefix_def)
    then have "(u @ ''.'' @ rest) ! length u = ((k @ ''.'') @ zs) ! length u"
      by simp
    moreover have "(u @ ''.'' @ rest) ! length u = CHR ''.''"
      by (simp add: nth_append)
    moreover have "((k @ ''.'') @ zs) ! length u = k ! length u"
      using lt by (simp add: nth_append)
    ultimately have "k ! length u = CHR ''.''" by simp
    with lt assms show False
      by (metis nth_mem)
  qed
  then have "length (k @ ''.'') \<le> length (u @ ''.'')" by simp
  moreover from p have "prefix (k @ ''.'') ((u @ ''.'') @ rest)" by simp
  ultimately show "prefix (k @ ''.'') (u @ ''.'')"
    by (metis prefix_length_prefix prefixI)
next
  assume "prefix (k @ ''.'') (u @ ''.'')"
  then have "prefix (k @ ''.'') ((u @ ''.'') @ rest)"
    by (rule prefix_prefix)
  then show "prefix (k @ ''.'') (u @ ''.'' @ rest)" by simp
qed

lemma ReplaceAll_match:
  "old \<noteq> [] \<Longrightarrow> prefix old s \<Longrightarrow>
     ReplaceAll s old new = new @ ReplaceAll (drop (length old) s) old new"
  by (cases s) auto

lemma ReplaceAll_nomatch:
  "old \<noteq> [] \<Longrightarrow> \<not> prefix old (c # cs) \<Longrightarrow>
     ReplaceAll (c # cs) old new = c # ReplaceAll cs old new"
  by simp

lemma ReplaceAll_Nil: "old \<noteq> [] \<Longrightarrow> ReplaceAll [] old new = []"
  by simp

lemma prefix_dot_pattern':
  assumes "CHR ''.'' \<notin> set k" and "w \<noteq> []" and "last w = CHR ''.''"
  shows "prefix (k @ ''.'') (w @ rest) \<longleftrightarrow> prefix (k @ ''.'') w"
proof -
  from assms(2,3) have w: "w = butlast w @ ''.''"
    by (metis append_butlast_last_id)
  have "prefix (k @ ''.'') (butlast w @ ''.'' @ rest) \<longleftrightarrow> prefix (k @ ''.'') (butlast w @ ''.'')"
    by (rule prefix_dot_pattern[OF assms(1)])
  then have "prefix (k @ ''.'') ((butlast w @ ''.'') @ rest) \<longleftrightarrow> prefix (k @ ''.'') (butlast w @ ''.'')"
    by (simp only: append_assoc)
  then show ?thesis
    by (simp only: w[symmetric])
qed

lemma ReplaceAll_closed_hom:
  assumes k: "CHR ''.'' \<notin> set k"
  shows "w = [] \<or> last w = CHR ''.'' \<Longrightarrow>
    ReplaceAll (w @ rest) (k @ ''.'') new =
      ReplaceAll w (k @ ''.'') new @ ReplaceAll rest (k @ ''.'') new"
proof (induction w rule: length_induct)
  case (1 w)
  let ?pat = "k @ ''.''"
  have pat: "?pat \<noteq> []" by simp
  show ?case
  proof (cases w)
    case Nil
    then show ?thesis
      by (simp only: append_Nil ReplaceAll_Nil[OF pat])
  next
    case (Cons c w')
    with "1.prems" have lw: "last w = CHR ''.''" and wne: "w \<noteq> []" by simp_all
    note pre = prefix_dot_pattern'[OF k wne lw, of rest]
    show ?thesis
    proof (cases "prefix ?pat w")
      case match: True
      with pre have match': "prefix ?pat (w @ rest)" by blast
      from match have len: "length ?pat \<le> length w"
        by (rule prefix_length_le)
      let ?w2 = "drop (length ?pat) w"
      have d: "drop (length ?pat) (w @ rest) = ?w2 @ rest"
        using len by simp
      have "length ?w2 < length w"
        using wne by simp
      moreover have "?w2 = [] \<or> last ?w2 = CHR ''.''"
        using lw by (cases "?w2 = []") (simp_all add: last_drop)
      ultimately have ih: "ReplaceAll (?w2 @ rest) ?pat new =
          ReplaceAll ?w2 ?pat new @ ReplaceAll rest ?pat new"
        using "1.IH" by blast
      have "ReplaceAll (w @ rest) ?pat new = new @ ReplaceAll (?w2 @ rest) ?pat new"
        by (simp only: ReplaceAll_match[OF pat match'] d)
      also have "\<dots> = (new @ ReplaceAll ?w2 ?pat new) @ ReplaceAll rest ?pat new"
        by (simp only: ih append_assoc)
      also have "new @ ReplaceAll ?w2 ?pat new = ReplaceAll w ?pat new"
        by (simp only: ReplaceAll_match[OF pat match])
      finally show ?thesis .
    next
      case nomatch: False
      with pre have nomatch': "\<not> prefix ?pat (c # (w' @ rest))"
        by (simp add: Cons)
      from nomatch have nomatch2: "\<not> prefix ?pat (c # w')"
        by (simp add: Cons)
      have "length w' < length w" by (simp add: Cons)
      moreover have "w' = [] \<or> last w' = CHR ''.''"
        using lw by (cases "w' = []") (simp_all add: Cons)
      ultimately have ih: "ReplaceAll (w' @ rest) ?pat new =
          ReplaceAll w' ?pat new @ ReplaceAll rest ?pat new"
        using "1.IH" by blast
      have "ReplaceAll (w @ rest) ?pat new = ReplaceAll (c # (w' @ rest)) ?pat new"
        by (simp only: Cons append_Cons)
      also have "\<dots> = c # ReplaceAll (w' @ rest) ?pat new"
        by (rule ReplaceAll_nomatch[OF pat nomatch'])
      also have "\<dots> = (c # ReplaceAll w' ?pat new) @ ReplaceAll rest ?pat new"
        by (simp only: ih append_Cons)
      also have "c # ReplaceAll w' ?pat new = ReplaceAll w ?pat new"
        by (simp only: Cons ReplaceAll_nomatch[OF pat nomatch2])
      finally show ?thesis .
    qed
  qed
qed

lemma split_at_char:
  assumes "xs @ a # r = ys @ a # r'" and "a \<notin> set xs" and "a \<notin> set ys"
  shows "xs = ys \<and> r = r'"
proof -
  have "xs = takeWhile (\<lambda>c. c \<noteq> a) (xs @ a # r)"
    by (rule takeWhile_upto[OF assms(2), symmetric])
  also have "\<dots> = takeWhile (\<lambda>c. c \<noteq> a) (ys @ a # r')"
    by (simp only: assms(1))
  also have "\<dots> = ys"
    by (rule takeWhile_upto[OF assms(3)])
  finally have "xs = ys" .
  with assms(1) show ?thesis by simp
qed

lemma dot_prefix_eq:
  assumes "CHR ''.'' \<notin> set k" and "CHR ''.'' \<notin> set s" and "prefix (k @ ''.'') (s @ ''.'')"
  shows "k = s"
proof -
  from assms(3) obtain z where "s @ ''.'' = (k @ ''.'') @ z"
    by (auto simp: prefix_def)
  then have "s @ CHR ''.'' # [] = k @ CHR ''.'' # z" by simp
  from split_at_char[OF this assms(2,1)] show ?thesis by simp
qed

lemma ReplaceAll_dot_segment:
  assumes "CHR ''.'' \<notin> set s" and k: "CHR ''.'' \<notin> set k" and "k \<noteq> []"
  shows "ReplaceAll (s @ ''.'') (k @ ''.'') new =
    (if suffix k s then take (length s - length k) s @ new else s @ ''.'')"
  using assms(1)
proof (induction s)
  case Nil
  from assms(2,3) obtain a k' where "k = a # k'" "a \<noteq> CHR ''.''" by (cases k) auto
  then show ?case by simp
next
  case (Cons c s')
  have pat: "k @ ''.'' \<noteq> []" by simp
  show ?case
  proof (cases "k = c # s'")
    case True
    then show ?thesis by simp
  next
    case False
    have np: "\<not> prefix (k @ ''.'') (c # (s' @ ''.''))"
    proof
      assume "prefix (k @ ''.'') (c # (s' @ ''.''))"
      then have "prefix (k @ ''.'') ((c # s') @ ''.'')" by simp
      from dot_prefix_eq[OF k Cons.prems this] False show False by simp
    qed
    from Cons have ih: "ReplaceAll (s' @ ''.'') (k @ ''.'') new =
        (if suffix k s' then take (length s' - length k) s' @ new else s' @ ''.'')"
      by simp
    have sf: "suffix k (c # s') \<longleftrightarrow> suffix k s'"
      using False by (auto simp: suffix_Cons)
    have "suffix k s' \<Longrightarrow> length k \<le> length s'"
      by (rule suffix_length_le)
    then have tk: "suffix k s' \<Longrightarrow>
        take (length (c # s') - length k) (c # s') = c # take (length s' - length k) s'"
      by (simp add: Suc_diff_le)
    have "ReplaceAll ((c # s') @ ''.'') (k @ ''.'') new =
        ReplaceAll (c # (s' @ ''.'')) (k @ ''.'') new"
      by simp
    also have "\<dots> = c # ReplaceAll (s' @ ''.'') (k @ ''.'') new"
      by (rule ReplaceAll_nomatch[OF pat np])
    finally show ?thesis
      using tk by (simp only: ih sf) (simp split: if_splits)
  qed
qed

lemma ReplaceAll_dot_chunks:
  assumes "CHR ''.'' \<notin> set k"
  shows "ReplaceAll (concat (map (\<lambda>v. v @ ''.'') vs) @ fin) (k @ ''.'') new =
    concat (map (\<lambda>v. ReplaceAll (v @ ''.'') (k @ ''.'') new) vs) @ ReplaceAll fin (k @ ''.'') new"
proof (induction vs)
  case Nil
  show ?case by simp
next
  case (Cons v vs)
  have "ReplaceAll (concat (map (\<lambda>v. v @ ''.'') (v # vs)) @ fin) (k @ ''.'') new =
      ReplaceAll ((v @ ''.'') @ (concat (map (\<lambda>v. v @ ''.'') vs) @ fin)) (k @ ''.'') new"
    by simp
  also have "\<dots> = ReplaceAll (v @ ''.'') (k @ ''.'') new @
      ReplaceAll (concat (map (\<lambda>v. v @ ''.'') vs) @ fin) (k @ ''.'') new"
    by (rule ReplaceAll_closed_hom[OF assms]) simp
  finally show ?case
    by (simp add: Cons.IH)
qed

section \<open>Segments of a text\<close>

lemma splitDots_concat:
  "splitDots c = (segs, fin) \<Longrightarrow> c = concat (map (\<lambda>s. s @ ''.'') segs) @ fin"
proof (induction c arbitrary: segs fin)
  case Nil
  then show ?case by simp
next
  case (Cons x xs)
  obtain segs' fin' where r: "splitDots xs = (segs', fin')" by (cases "splitDots xs")
  from Cons.IH[OF r] have xs: "xs = concat (map (\<lambda>s. s @ ''.'') segs') @ fin'" .
  show ?case
  proof (cases "x = CHR ''.''")
    case True
    with Cons.prems r have "segs = [] # segs'" "fin = fin'" by simp_all
    with xs True show ?thesis by simp
  next
    case False
    show ?thesis
    proof (cases segs')
      case Nil
      with Cons.prems r False have "segs = []" "fin = x # fin'" by simp_all
      with xs Nil show ?thesis by simp
    next
      case (Cons s ss)
      with Cons.prems r False have "segs = (x # s) # ss" "fin = fin'" by simp_all
      with xs Cons show ?thesis by simp
    qed
  qed
qed

lemma splitDots_dotfree:
  "splitDots c = (segs, fin) \<Longrightarrow> (\<forall>s\<in>set segs. CHR ''.'' \<notin> set s) \<and> CHR ''.'' \<notin> set fin"
proof (induction c arbitrary: segs fin)
  case Nil
  then show ?case by simp
next
  case (Cons x xs)
  obtain segs' fin' where r: "splitDots xs = (segs', fin')" by (cases "splitDots xs")
  from Cons.IH[OF r] have ih: "(\<forall>s\<in>set segs'. CHR ''.'' \<notin> set s) \<and> CHR ''.'' \<notin> set fin'" .
  show ?case
  proof (cases "x = CHR ''.''")
    case True
    with Cons.prems r have "segs = [] # segs'" "fin = fin'" by simp_all
    with ih show ?thesis by simp
  next
    case False
    show ?thesis
    proof (cases segs')
      case Nil
      with Cons.prems r False have "segs = []" "fin = x # fin'" by simp_all
      with ih False show ?thesis by simp
    next
      case (Cons s ss)
      with Cons.prems r False have "segs = (x # s) # ss" "fin = fin'" by simp_all
      with ih Cons False show ?thesis by simp
    qed
  qed
qed

lemma sublist_concat_member: "x \<in> set xs \<Longrightarrow> sublist x (concat xs @ fin)"
proof -
  assume "x \<in> set xs"
  then obtain as bs where "xs = as @ x # bs" by (meson split_list)
  then have "concat xs @ fin = concat as @ x @ (concat bs @ fin)" by simp
  then show ?thesis by (metis sublist_appendI)
qed

lemma splitDots_segment_sublist:
  assumes "splitDots c = (segs, fin)" and "s \<in> set segs"
  shows "sublist (s @ ''.'') c"
proof -
  from assms(2) have "s @ ''.'' \<in> set (map (\<lambda>s. s @ ''.'') segs)" by simp
  then have "sublist (s @ ''.'') (concat (map (\<lambda>s. s @ ''.'') segs) @ fin)"
    by (rule sublist_concat_member)
  with splitDots_concat[OF assms(1)] show ?thesis by simp
qed

section \<open>The longest alias at the end of a segment\<close>

lemma lenDesc_before:
  assumes "lenDesc (xs @ k # ys)" and "k' \<in> set ys"
  shows "length k' \<le> length k"
  using assms by (auto simp: lenDesc_def sorted_wrt_append)

lemma find_first:
  "find P qs = Some k \<Longrightarrow> \<exists>xs ys. qs = xs @ k # ys \<and> P k \<and> (\<forall>q\<in>set xs. \<not> P q)"
proof (induction qs)
  case Nil
  then show ?case by simp
next
  case (Cons q qs)
  show ?case
  proof (cases "P q")
    case True
    with Cons.prems have "k = q" by simp
    with True have "q # qs = [] @ k # qs \<and> P k \<and> (\<forall>q\<in>set []. \<not> P q)" by simp
    then show ?thesis by blast
  next
    case False
    with Cons.prems have "find P qs = Some k" by simp
    from Cons.IH[OF this] obtain xs ys where "qs = xs @ k # ys" "P k" "\<forall>q\<in>set xs. \<not> P q"
      by blast
    with False have "q # qs = (q # xs) @ k # ys \<and> P k \<and> (\<forall>q\<in>set (q # xs). \<not> P q)"
      by simp
    then show ?thesis by blast
  qed
qed

lemma find_suffix_lenDesc:
  assumes "lenDesc qs" and "lenDesc qs'" and "set qs = set qs'"
  shows "find (\<lambda>q. suffix q s) qs = find (\<lambda>q. suffix q s) qs'"
proof -
  have one: "find (\<lambda>q. suffix q s) bs = Some k"
    if a: "lenDesc as" and b: "lenDesc bs" and st: "set as = set bs"
      and f: "find (\<lambda>q. suffix q s) as = Some k" for as bs k
  proof -
    from find_first[OF f] obtain xs ys where as: "as = xs @ k # ys" and k: "suffix k s"
      and xs: "\<forall>q\<in>set xs. \<not> suffix q s" by blast
    from as st have "k \<in> set bs" by auto
    with k have "find (\<lambda>q. suffix q s) bs \<noteq> None"
      by (auto simp: find_None_iff)
    then obtain k' where f': "find (\<lambda>q. suffix q s) bs = Some k'" by auto
    from find_first[OF f'] obtain xs' ys' where bs: "bs = xs' @ k' # ys'" and k': "suffix k' s"
      and xs': "\<forall>q\<in>set xs'. \<not> suffix q s" by blast
    have "k' = k"
    proof (rule ccontr)
      assume ne: "k' \<noteq> k"
      from bs st as have "k' \<in> set (xs @ k # ys)" by auto
      with ne xs k' have "k' \<in> set ys" by auto
      with a as have 1: "length k' \<le> length k" using lenDesc_before by blast
      from as st bs have "k \<in> set (xs' @ k' # ys')" by auto
      with ne xs' k have "k \<in> set ys'" by auto
      with b bs have 2: "length k \<le> length k'" using lenDesc_before by blast
      from 1 2 have "length k = length k'" by simp
      with k k' have "k = k'"
        by (metis suffix_order.eq_iff suffix_length_suffix order_refl)
      with ne show False by simp
    qed
    with f' show ?thesis by simp
  qed
  show ?thesis
  proof (cases "find (\<lambda>q. suffix q s) qs")
    case None
    show ?thesis
    proof (cases "find (\<lambda>q. suffix q s) qs'")
      case None
      with \<open>find (\<lambda>q. suffix q s) qs = None\<close> show ?thesis by simp
    next
      case (Some k)
      from one[OF assms(2) assms(1) assms(3)[symmetric] Some] None show ?thesis by simp
    qed
  next
    case (Some k)
    from one[OF assms(1) assms(2) assms(3) Some] Some show ?thesis by simp
  qed
qed

section \<open>Placeholders\<close>

lemma Itoa_inj: "Itoa i = Itoa j \<Longrightarrow> i = j"
proof -
  assume "Itoa i = Itoa j"
  then have "Itoa i @ CHR ''-'' # [] = Itoa j @ CHR ''-'' # []" by simp
  from Itoa_split[OF this] show ?thesis by simp
qed

lemma placeholder_inj: "placeholder i = placeholder j \<Longrightarrow> i = j"
  by (simp add: placeholder_def Itoa_inj)

lemma digitChar_digit: "digitChar d \<in> set ''0123456789''"
proof -
  have "d mod 10 < length ''0123456789''" by simp
  then have "''0123456789'' ! (d mod 10) \<in> set ''0123456789''"
    by (rule nth_mem)
  then show ?thesis by (simp only: digitChar_def)
qed

lemma digits_chars: "set (digits n) \<subseteq> set ''0123456789''"
proof (induction n rule: digits.induct)
  case (1 n)
  show ?case
  proof (cases "n < 10")
    case True
    then show ?thesis
      using digitChar_digit[of n] by (subst digits.simps) simp
  next
    case False
    with 1 have "set (digits (n div 10)) \<subseteq> set ''0123456789''" by simp
    with False show ?thesis
      using digitChar_digit[of "n mod 10"] by (subst digits.simps) simp
  qed
qed

lemma digits_avoid: "c \<notin> set ''0123456789'' \<Longrightarrow> c \<notin> set (digits n)"
  using digits_chars[of n] by blast

lemma Itoa_avoid:
  assumes "c \<notin> set ''0123456789''" and "c \<noteq> CHR ''-''"
  shows "c \<notin> set (Itoa i)"
proof (cases "i < 0")
  case True
  then have "Itoa i = CHR ''-'' # digits (nat (- i))" by (simp add: Itoa_def)
  with assms(2) digits_avoid[OF assms(1), of "nat (- i)"] show ?thesis by simp
next
  case False
  then have "Itoa i = digits (nat i)" by (simp add: Itoa_def)
  with digits_avoid[OF assms(1), of "nat i"] show ?thesis by simp
qed

lemma Itoa_no_dot: "CHR ''.'' \<notin> set (Itoa i)"
  by (rule Itoa_avoid) simp_all

lemma Itoa_no_underscore: "CHR ''_'' \<notin> set (Itoa i)"
  by (rule Itoa_avoid) simp_all

lemma placeholder_no_dot: "CHR ''.'' \<notin> set (placeholder i)"
  using Itoa_no_dot[of i] by (simp add: placeholder_def placeholderPrefix_def)

lemma placeholder_nonempty: "placeholder i \<noteq> []"
  by (simp add: placeholder_def placeholderPrefix_def)

lemma last_placeholder: "last (placeholder i) = CHR ''_''"
  by (simp add: placeholder_def)

lemma placeholder_has_prefix: "sublist placeholderPrefix (placeholder i)"
  by (simp add: placeholder_def)

lemma suffix_last_separator:
  assumes "a \<notin> set u" and "a \<notin> set v" and "suffix (w1 @ a # u) (w2 @ a # v)"
  shows "u = v"
proof -
  from assms(3) obtain z where "w2 @ a # v = z @ w1 @ a # u"
    by (auto simp: suffix_def)
  then have "rev (w2 @ a # v) = rev ((z @ w1) @ a # u)" by simp
  then have "rev v @ a # rev w2 = rev u @ a # rev (z @ w1)" by simp
  from split_at_char[OF this] assms(1,2) have "rev v = rev u" by simp
  then show ?thesis by simp
qed

lemma placeholder_suffix:
  assumes "suffix (placeholder j) (pre @ placeholder i)"
  shows "j = i"
proof -
  let ?pp = "''__GO_QUALIFIER_TEMP''"
  have pj: "placeholder j = (?pp @ CHR ''_'' # Itoa j) @ ''__''"
    and pi: "pre @ placeholder i = ((pre @ ?pp) @ CHR ''_'' # Itoa i) @ ''__''"
    by (simp_all add: placeholder_def placeholderPrefix_def)
  from assms have "suffix ((?pp @ CHR ''_'' # Itoa j) @ ''__'') (((pre @ ?pp) @ CHR ''_'' # Itoa i) @ ''__'')"
    by (simp only: pj pi)
  then have "suffix (?pp @ CHR ''_'' # Itoa j) ((pre @ ?pp) @ CHR ''_'' # Itoa i)"
    by (simp only: same_suffix_suffix)
  from suffix_last_separator[OF Itoa_no_underscore Itoa_no_underscore this]
  show ?thesis by (rule Itoa_inj)
qed

section \<open>The maps built by assignPlaceholders\<close>

lemma assignPlaceholders_preserves:
  "assignPlaceholders xs i (t, f) = (t', f') \<Longrightarrow>
     (k \<notin> fst ` set xs \<longrightarrow> map_of t' k = map_of t k) \<and>
     ((\<forall>j. i \<le> j \<and> j < i + int (length xs) \<longrightarrow> ph \<noteq> placeholder j) \<longrightarrow>
        map_of f' ph = map_of f ph)"
proof (induction xs arbitrary: i t f)
  case Nil
  then show ?case by simp
next
  case (Cons x xs)
  obtain q p where x: "x = (q, p)" by (cases x)
  from Cons.prems have r: "assignPlaceholders xs (i + 1)
      (AList.update q (placeholder i) t, AList.update (placeholder i) p f) = (t', f')"
    by (simp add: x)
  note ih = Cons.IH[OF r]
  show ?case
  proof (intro conjI impI)
    assume k: "k \<notin> fst ` set (x # xs)"
    with ih have "map_of t' k = map_of (AList.update q (placeholder i) t) k" by simp
    with k show "map_of t' k = map_of t k"
      by (simp add: x update_conv')
  next
    assume ph: "\<forall>j. i \<le> j \<and> j < i + int (length (x # xs)) \<longrightarrow> ph \<noteq> placeholder j"
    then have "\<forall>j. i + 1 \<le> j \<and> j < i + 1 + int (length xs) \<longrightarrow> ph \<noteq> placeholder j"
      by auto
    with ih have "map_of f' ph = map_of (AList.update (placeholder i) p f) ph" by blast
    moreover from ph have "ph \<noteq> placeholder i" by auto
    ultimately show "map_of f' ph = map_of f ph"
      by (simp add: update_conv')
  qed
qed

lemma assignPlaceholders_entries:
  "assignPlaceholders xs i (t, f) = (t', f') \<Longrightarrow> distinct (map fst xs) \<Longrightarrow>
     (k, p) \<in> set xs \<Longrightarrow>
     \<exists>j. i \<le> j \<and> j < i + int (length xs) \<and>
       map_of t' k = Some (placeholder j) \<and> map_of f' (placeholder j) = Some p"
proof (induction xs arbitrary: i t f)
  case Nil
  then show ?case by simp
next
  case (Cons x xs)
  obtain q0 p0 where x: "x = (q0, p0)" by (cases x)
  from Cons.prems(1) have r: "assignPlaceholders xs (i + 1)
      (AList.update q0 (placeholder i) t, AList.update (placeholder i) p0 f) = (t', f')"
    by (simp add: x)
  from Cons.prems(2) have d: "distinct (map fst xs)" and q0: "q0 \<notin> fst ` set xs"
    by (simp_all add: x)
  show ?case
  proof (cases "(k, p) \<in> set xs")
    case True
    from Cons.IH[OF r d True] obtain j where "i + 1 \<le> j" "j < i + 1 + int (length xs)"
      "map_of t' k = Some (placeholder j)" "map_of f' (placeholder j) = Some p"
      by blast
    then have "i \<le> j \<and> j < i + int (length (x # xs)) \<and>
       map_of t' k = Some (placeholder j) \<and> map_of f' (placeholder j) = Some p"
      by simp
    then show ?thesis by blast
  next
    case False
    with Cons.prems(3) have kp: "k = q0" "p = p0" by (simp_all add: x)
    have "\<forall>j. i + 1 \<le> j \<and> j < i + 1 + int (length xs) \<longrightarrow> placeholder i \<noteq> placeholder j"
      using placeholder_inj by fastforce
    with assignPlaceholders_preserves[OF r, of q0 "placeholder i"] q0
    have "map_of t' q0 = Some (placeholder i)" "map_of f' (placeholder i) = Some p0"
      by (simp_all add: update_conv')
    with kp have "i \<le> i \<and> i < i + int (length (x # xs)) \<and>
       map_of t' k = Some (placeholder i) \<and> map_of f' (placeholder i) = Some p"
      by simp
    then show ?thesis by blast
  qed
qed

section \<open>The first pass, segment by segment\<close>

lemma dotfree_not_sublist: "CHR ''.'' \<notin> set s \<Longrightarrow> \<not> sublist (k @ ''.'') s"
proof
  assume a: "CHR ''.'' \<notin> set s" and b: "sublist (k @ ''.'') s"
  from b have "set (k @ ''.'') \<subseteq> set s" by (rule set_mono_sublist)
  with a show False by simp
qed

lemma ReplaceAll_dotfree:
  "CHR ''.'' \<notin> set s \<Longrightarrow> ReplaceAll s (k @ ''.'') new = s"
  by (rule ReplaceAll_absent) (simp_all add: dotfree_not_sublist)

lemma ReplaceAll_segments:
  assumes k: "CHR ''.'' \<notin> set k" "k \<noteq> []"
    and segs: "\<forall>s\<in>set segs. CHR ''.'' \<notin> set s" and fin: "CHR ''.'' \<notin> set fin"
  shows "ReplaceAll (concat (map (\<lambda>s. s @ ''.'') segs) @ fin) (k @ ''.'') (new @ ''.'') =
    concat (map (\<lambda>s. s @ ''.'')
      (map (\<lambda>s. if suffix k s then take (length s - length k) s @ new else s) segs)) @ fin"
proof -
  have "map (\<lambda>v. ReplaceAll (v @ ''.'') (k @ ''.'') (new @ ''.'')) segs =
      map (\<lambda>s. (if suffix k s then take (length s - length k) s @ new else s) @ ''.'') segs"
    using segs by (intro map_cong refl) (simp add: ReplaceAll_dot_segment[OF _ k])
  then show ?thesis
    by (simp only: ReplaceAll_dot_chunks[OF k(1)] ReplaceAll_dotfree[OF fin] map_map comp_def)
qed

lemma replacePass_segments:
  assumes qs: "\<forall>q\<in>set qs. q \<noteq> [] \<and> CHR ''.'' \<notin> set q \<and> CHR ''.'' \<notin> set (mapGet t q)"
    and fin: "CHR ''.'' \<notin> set fin"
  shows "\<forall>s\<in>set segs. CHR ''.'' \<notin> set s \<Longrightarrow>
    replacePass t qs (concat (map (\<lambda>s. s @ ''.'') segs) @ fin) =
      concat (map (\<lambda>s. s @ ''.'')
        (map (\<lambda>s. foldl (\<lambda>x q. if suffix q x then take (length x - length q) x @ mapGet t q else x)
               s qs) segs)) @ fin"
  using qs
proof (induction qs arbitrary: segs)
  case Nil
  show ?case by (simp add: replacePass_def)
next
  case (Cons q qs)
  let ?step = "\<lambda>s. if suffix q s then take (length s - length q) s @ mapGet t q else s"
  from Cons.prems(2) have q: "CHR ''.'' \<notin> set q" "q \<noteq> []" and tq: "CHR ''.'' \<notin> set (mapGet t q)"
    and rest: "\<forall>q\<in>set qs. q \<noteq> [] \<and> CHR ''.'' \<notin> set q \<and> CHR ''.'' \<notin> set (mapGet t q)"
    by simp_all
  have segs': "\<forall>s\<in>set (map ?step segs). CHR ''.'' \<notin> set s"
  proof
    fix s assume "s \<in> set (map ?step segs)"
    then obtain s0 where s0: "s0 \<in> set segs" and s: "s = ?step s0" by auto
    from s0 Cons.prems(1) have "CHR ''.'' \<notin> set s0" by blast
    then have "CHR ''.'' \<notin> set (take (length s0 - length q) s0)"
      by (meson in_set_takeD)
    with \<open>CHR ''.'' \<notin> set s0\<close> tq s show "CHR ''.'' \<notin> set s" by simp
  qed
  have "replacePass t (q # qs) (concat (map (\<lambda>s. s @ ''.'') segs) @ fin) =
      replacePass t qs (ReplaceAll (concat (map (\<lambda>s. s @ ''.'') segs) @ fin) (q @ ''.'')
        (mapGet t q @ ''.''))"
    by (simp add: replacePass_def)
  also have "\<dots> = replacePass t qs (concat (map (\<lambda>s. s @ ''.'') (map ?step segs)) @ fin)"
    by (simp only: ReplaceAll_segments[OF q Cons.prems(1) fin])
  also have "\<dots> = concat (map (\<lambda>s. s @ ''.'')
        (map (\<lambda>s. foldl (\<lambda>x q. if suffix q x then take (length x - length q) x @ mapGet t q else x)
               s qs) (map ?step segs))) @ fin"
    by (rule Cons.IH[OF segs' rest])
  finally show ?case
    by (simp add: comp_def)
qed

lemma foldl_suffix_noop:
  "\<forall>q\<in>set qs. \<not> suffix q x \<Longrightarrow>
     foldl (\<lambda>x q. if suffix q x then take (length x - length q) x @ mapGet t q else x) x qs = x"
  by (induction qs) simp_all

lemma suffix_last:
  assumes "suffix q x" and "q \<noteq> []"
  shows "last q = last x"
  using assms by (auto simp: suffix_def)

lemma foldl_suffix_rewrite:
  assumes "\<forall>q\<in>set qs. q \<noteq> [] \<and> last q \<noteq> CHR ''_'' \<and>
      mapGet t q \<noteq> [] \<and> last (mapGet t q) = CHR ''_''"
  shows "foldl (\<lambda>x q. if suffix q x then take (length x - length q) x @ mapGet t q else x) s qs =
    rewriteSegment t qs s"
  using assms
proof (induction qs)
  case Nil
  show ?case by (simp add: rewriteSegment_def aliasAtEnd_def)
next
  case (Cons q qs)
  show ?case
  proof (cases "suffix q s")
    case True
    let ?x = "take (length s - length q) s @ mapGet t q"
    from Cons.prems have "last ?x = CHR ''_''" by simp
    moreover from Cons.prems have "\<forall>q'\<in>set qs. q' \<noteq> [] \<and> last q' \<noteq> CHR ''_''" by simp
    ultimately have "\<forall>q'\<in>set qs. \<not> suffix q' ?x"
      using suffix_last by metis
    from foldl_suffix_noop[OF this] True show ?thesis
      by (simp add: rewriteSegment_def aliasAtEnd_def)
  next
    case False
    with Cons show ?thesis
      by (simp add: rewriteSegment_def aliasAtEnd_def)
  qed
qed

section \<open>The second pass, item by item\<close>

lemma ReplaceAll_closed_chunks:
  assumes k: "CHR ''.'' \<notin> set k"
  shows "\<forall>u\<in>set us. u = [] \<or> last u = CHR ''.'' \<Longrightarrow>
    ReplaceAll (concat us @ fin) (k @ ''.'') new =
      concat (map (\<lambda>u. ReplaceAll u (k @ ''.'') new) us) @ ReplaceAll fin (k @ ''.'') new"
proof (induction us)
  case Nil
  show ?case by simp
next
  case (Cons u us)
  from Cons.prems have u: "u = [] \<or> last u = CHR ''.''"
    and us: "\<forall>u\<in>set us. u = [] \<or> last u = CHR ''.''" by simp_all
  have "ReplaceAll (concat (u # us) @ fin) (k @ ''.'') new =
      ReplaceAll (u @ (concat us @ fin)) (k @ ''.'') new"
    by simp
  also have "\<dots> = ReplaceAll u (k @ ''.'') new @ ReplaceAll (concat us @ fin) (k @ ''.'') new"
    by (rule ReplaceAll_closed_hom[OF k u])
  finally show ?case
    by (simp add: Cons.IH[OF us])
qed

lemma sublist_trans: "sublist xs ys \<Longrightarrow> sublist ys zs \<Longrightarrow> sublist xs zs"
proof -
  assume "sublist xs ys" and "sublist ys zs"
  then obtain a b c d where "ys = a @ xs @ b" and "zs = c @ ys @ d"
    by (auto simp: sublist_def)
  then have "zs = (c @ a) @ xs @ (b @ d)" by simp
  then show ?thesis unfolding sublist_def by blast
qed

lemma underscore_dot_suffix: "suffix ''_.'' (placeholder j @ ''.'')"
  by (simp add: placeholder_def suffix_def)

lemma split_before_two:
  assumes "x1 @ x2 = y @ [u, d]"
  shows "x2 = [] \<or> (x2 = [d] \<and> x1 = y @ [u]) \<or> suffix [u, d] x2"
proof (cases x2 rule: rev_cases)
  case Nil
  then show ?thesis by simp
next
  case (snoc x2' a)
  with assms have "(x1 @ x2') @ [a] = (y @ [u]) @ [d]" by simp
  then have a: "a = d" and r: "x1 @ x2' = y @ [u]" by simp_all
  show ?thesis
  proof (cases x2' rule: rev_cases)
    case Nil
    with snoc a r show ?thesis by simp
  next
    case (snoc x2'' b)
    with r have "(x1 @ x2'') @ [b] = y @ [u]" by simp
    then have "b = u" by simp
    with snoc \<open>x2 = x2' @ [a]\<close> a have "x2 = x2'' @ [u, d]" by simp
    then show ?thesis by (simp add: suffix_def)
  qed
qed

lemma no_placeholder_in_resolved:
  assumes pre: "\<not> sublist placeholderPrefix pre" "CHR ''.'' \<notin> set pre"
    and path: "plainPath path"
  shows "\<not> sublist (placeholder j @ ''.'') (pre @ path @ ''.'')"
proof
  let ?X = "placeholder j @ ''.''"
  assume "sublist ?X (pre @ path @ ''.'')"
  then consider (a) "sublist ?X pre" | (b) "sublist ?X (path @ ''.'')"
    | (c) x1 x2 where "?X = x1 @ x2" "suffix x1 pre" "prefix x2 (path @ ''.'')"
    by (auto simp: sublist_append)
  then show False
  proof cases
    case a
    then show False using pre(2) dotfree_not_sublist by blast
  next
    case b
    have "sublist ''_.'' ?X"
      using underscore_dot_suffix by (rule suffix_imp_sublist)
    from this b have "sublist ''_.'' (path @ ''.'')"
      by (rule sublist_trans)
    with path show False by (simp add: plainPath_def)
  next
    case c
    obtain y where y: "placeholder j = y @ ''_''"
      by (metis append_butlast_last_id last_placeholder placeholder_nonempty)
    with c(1) have "x1 @ x2 = y @ [CHR ''_'', CHR ''.'']" by simp
    from split_before_two[OF this]
    consider "x2 = []" | "x2 = ''.''" "x1 = y @ ''_''" | "suffix ''_.'' x2" by auto
    then show False
    proof cases
      case 1
      with c(1,2) have "suffix ?X pre" by simp
      then have "sublist ?X pre" by (rule suffix_imp_sublist)
      then show False using pre(2) dotfree_not_sublist by blast
    next
      case 2
      with y c(2) have "suffix (placeholder j) pre" by simp
      then have "sublist (placeholder j) pre" by (rule suffix_imp_sublist)
      with placeholder_has_prefix[of j] have "sublist placeholderPrefix pre"
        by (rule sublist_trans)
      with pre(1) show False by simp
    next
      case 3
      then have "sublist ''_.'' x2" by (rule suffix_imp_sublist)
      moreover from c(3) have "sublist x2 (path @ ''.'')" by (rule prefix_imp_sublist)
      ultimately have "sublist ''_.'' (path @ ''.'')" by (rule sublist_trans)
      with path show False by (simp add: plainPath_def)
    qed
  qed
qed

lemma aliasAtEnd_Some:
  "aliasAtEnd qs s = Some q \<Longrightarrow> q \<in> set qs \<and> suffix q s"
  unfolding aliasAtEnd_def by (auto dest!: find_first)

lemma take_prefix_sublist: "sublist x (take n s) \<Longrightarrow> sublist x s"
  by (meson sublist_trans sublist_take)

lemma pass2Item_step:
  assumes s: "CHR ''.'' \<notin> set s" "\<not> sublist placeholderPrefix s"
    and qs: "\<forall>q\<in>set qs. \<exists>i. mapGet t q = placeholder i \<and> plainPath (mapGet f (placeholder i))"
  shows "ReplaceAll (pass2Item t f qs D s) (placeholder j @ ''.'') (mapGet f (placeholder j) @ ''.'') =
    pass2Item t f qs (insert (placeholder j) D) s"
proof (cases "aliasAtEnd qs s")
  case None
  have "\<not> suffix (placeholder j) s"
  proof
    assume "suffix (placeholder j) s"
    then have "sublist (placeholder j) s" by (rule suffix_imp_sublist)
    with placeholder_has_prefix[of j] have "sublist placeholderPrefix s"
      by (rule sublist_trans)
    with s(2) show False by simp
  qed
  then show ?thesis
    by (simp add: pass2Item_def None
        ReplaceAll_dot_segment[OF s(1) placeholder_no_dot placeholder_nonempty])
next
  case (Some q)
  let ?pre = "take (length s - length q) s"
  from aliasAtEnd_Some[OF Some] qs obtain i where tq: "mapGet t q = placeholder i"
    and path: "plainPath (mapGet f (placeholder i))" by blast
  have pre: "CHR ''.'' \<notin> set ?pre" "\<not> sublist placeholderPrefix ?pre"
    using s by (meson in_set_takeD, meson take_prefix_sublist)
  show ?thesis
  proof (cases "placeholder i \<in> D")
    case True
    have "ReplaceAll (?pre @ mapGet f (placeholder i) @ ''.'') (placeholder j @ ''.'')
        (mapGet f (placeholder j) @ ''.'') = ?pre @ mapGet f (placeholder i) @ ''.''"
      by (rule ReplaceAll_absent) (simp, rule no_placeholder_in_resolved[OF pre(2,1) path])
    with True show ?thesis
      by (simp add: pass2Item_def Some tq)
  next
    case notdone: False
    have seg: "CHR ''.'' \<notin> set (?pre @ placeholder i)"
      using pre(1) placeholder_no_dot[of i] by simp
    note r = ReplaceAll_dot_segment[OF seg placeholder_no_dot placeholder_nonempty,
        of j "mapGet f (placeholder j) @ ''.''"]
    show ?thesis
    proof (cases "j = i")
      case True
      have sfx: "suffix (placeholder i) (?pre @ placeholder i)"
        by (simp add: suffix_def)
      have "ReplaceAll ((?pre @ placeholder i) @ ''.'') (placeholder i @ ''.'')
          (mapGet f (placeholder i) @ ''.'') = ?pre @ mapGet f (placeholder i) @ ''.''"
        using r[unfolded True] sfx by simp
      with notdone True show ?thesis
        by (simp add: pass2Item_def Some tq)
    next
      case False
      then have "\<not> suffix (placeholder j) (?pre @ placeholder i)"
        using placeholder_suffix by blast
      with r have "ReplaceAll ((?pre @ placeholder i) @ ''.'') (placeholder j @ ''.'')
          (mapGet f (placeholder j) @ ''.'') = (?pre @ placeholder i) @ ''.''"
        by simp
      moreover from False have "placeholder i \<noteq> placeholder j"
        using placeholder_inj by blast
      ultimately show ?thesis
        using notdone by (simp add: pass2Item_def Some tq)
    qed
  qed
qed

lemma pass2Item_closed: "pass2Item t f qs D s = [] \<or> last (pass2Item t f qs D s) = CHR ''.''"
  by (simp add: pass2Item_def split: option.splits)

lemma replacePass_items:
  assumes segs: "\<forall>s\<in>set segs. CHR ''.'' \<notin> set s \<and> \<not> sublist placeholderPrefix s"
    and fin: "CHR ''.'' \<notin> set fin"
    and qs: "\<forall>q\<in>set qs. \<exists>i. mapGet t q = placeholder i \<and> plainPath (mapGet f (placeholder i))"
  shows "\<forall>p\<in>set ps. \<exists>j. p = placeholder j \<Longrightarrow>
    replacePass f ps (concat (map (pass2Item t f qs D) segs) @ fin) =
      concat (map (pass2Item t f qs (D \<union> set ps)) segs) @ fin"
proof (induction ps arbitrary: D)
  case Nil
  show ?case by (simp add: replacePass_def)
next
  case (Cons p ps)
  from Cons.prems obtain j where p: "p = placeholder j"
    and rest: "\<forall>p\<in>set ps. \<exists>j. p = placeholder j" by auto
  have closed: "\<forall>u\<in>set (map (pass2Item t f qs D) segs). u = [] \<or> last u = CHR ''.''"
    using pass2Item_closed by auto
  have step: "map (\<lambda>u. ReplaceAll u (placeholder j @ ''.'') (mapGet f (placeholder j) @ ''.''))
      (map (pass2Item t f qs D) segs) = map (pass2Item t f qs (insert (placeholder j) D)) segs"
    using segs by (simp add: pass2Item_step[OF _ _ qs])
  have "replacePass f (p # ps) (concat (map (pass2Item t f qs D) segs) @ fin) =
      replacePass f ps (ReplaceAll (concat (map (pass2Item t f qs D) segs) @ fin)
        (placeholder j @ ''.'') (mapGet f (placeholder j) @ ''.''))"
    by (simp add: replacePass_def p)
  also have "\<dots> = replacePass f ps
      (concat (map (pass2Item t f qs (insert (placeholder j) D)) segs) @ fin)"
    by (simp only: ReplaceAll_closed_chunks[OF placeholder_no_dot closed] step
        ReplaceAll_dotfree[OF fin])
  also have "\<dots> = concat (map (pass2Item t f qs (insert (placeholder j) D \<union> set ps)) segs) @ fin"
    by (rule Cons.IH[OF rest])
  finally show ?case
    by (simp add: p)
qed

section \<open>The two passes compute the canonical text\<close>

lemma twoPassReplace_setup:
  assumes v: "validScheduler sch" and d: "distinct (map fst m)"
    and tf: "assignPlaceholders (rangeReplacements sch m) 0 ([], []) = (t, f)"
  shows "set (sortQualifiers sch (map fst (rangeTempMap sch t))) = fst ` set m"
    and "set (sortPlaceholders sch (map fst (rangeFinalMap sch f))) =
      placeholder ` {0 ..< int (length m)}"
    and "(k, p) \<in> set m \<Longrightarrow> \<exists>j. 0 \<le> j \<and> j < int (length m) \<and>
        mapGet t k = placeholder j \<and> mapGet f (placeholder j) = p"
proof -
  let ?order = "rangeReplacements sch m"
  let ?qs = "sortQualifiers sch (map fst (rangeTempMap sch t))"
  let ?ps = "sortPlaceholders sch (map fst (rangeFinalMap sch f))"
  have perm: "mset ?order = mset m" using v by (rule sched_range)
  then have len: "length ?order = length m" by (rule mset_eq_length)
  from perm have st: "set ?order = set m" by (rule mset_eq_setD)
  from perm have "mset (map fst ?order) = mset (map fst m)" by simp
  from mset_eq_imp_distinct_iff[OF this] d have dord: "distinct (map fst ?order)"
    by simp
  from assignPlaceholders_keys[OF tf]
  have kt: "fst ` set t = fst ` set m"
    and kf: "fst ` set f = placeholder ` {0 ..< int (length m)}"
    by (simp_all add: len st)
  have "set ?qs = set (map fst t)"
    using sched_qualifiers[OF v, of t] by (rule mset_eq_setD)
  with kt show "set ?qs = fst ` set m" by simp
  have "set ?ps = set (map fst f)"
    using sched_placeholders[OF v, of f] by (rule mset_eq_setD)
  with kf show "set ?ps = placeholder ` {0 ..< int (length m)}" by simp
  show "\<exists>j. 0 \<le> j \<and> j < int (length m) \<and>
        mapGet t k = placeholder j \<and> mapGet f (placeholder j) = p" if "(k, p) \<in> set m"
  proof -
    from that st have "(k, p) \<in> set ?order" by simp
    from assignPlaceholders_entries[OF tf dord this] obtain j where
      "0 \<le> j" "j < 0 + int (length ?order)" "map_of t k = Some (placeholder j)"
      "map_of f (placeholder j) = Some p" by blast
    then have "0 \<le> j \<and> j < int (length m) \<and>
        mapGet t k = placeholder j \<and> mapGet f (placeholder j) = p"
      by (simp add: mapGet_def len)
    then show ?thesis ..
  qed
qed

lemma lenDesc_sortByLenDesc: "lenDesc (sortByLenDesc xs)" "set (sortByLenDesc xs) = set xs"
  by (simp_all add: sortByLenDesc_def lenDesc_def sorted_wrt_rev sorted_sort_key
      flip: sorted_wrt_map[where f = length and R = "(\<le>)"])

lemma rewriteSegment_lenDesc:
  assumes "lenDesc qs" and "lenDesc qs'" and "set qs = set qs'"
  shows "rewriteSegment m qs s = rewriteSegment m qs' s"
  using find_suffix_lenDesc[OF assms, of s]
  by (simp add: rewriteSegment_def aliasAtEnd_def)

lemma twoPassReplace_canonical:
  assumes v: "validScheduler sch" and d: "distinct (map fst m)" and pm: "plainMap m"
    and c: "\<not> sublist placeholderPrefix c"
  shows "twoPassReplace sch m c = canonicalText m c"
proof -
  obtain segs fin where sp: "splitDots c = (segs, fin)" by (cases "splitDots c")
  note cc = splitDots_concat[OF sp]
  from splitDots_dotfree[OF sp] have segs_dot: "\<forall>s\<in>set segs. CHR ''.'' \<notin> set s"
    and fin: "CHR ''.'' \<notin> set fin" by simp_all
  have segs_pp: "\<not> sublist placeholderPrefix s" if "s \<in> set segs" for s
  proof
    assume "sublist placeholderPrefix s"
    moreover have "sublist s (s @ ''.'')" by simp
    ultimately have "sublist placeholderPrefix (s @ ''.'')" by (rule sublist_trans)
    from this splitDots_segment_sublist[OF sp that] have "sublist placeholderPrefix c"
      by (rule sublist_trans)
    with c show False by simp
  qed
  obtain t f where tf: "assignPlaceholders (rangeReplacements sch m) 0 ([], []) = (t, f)"
    by (cases "assignPlaceholders (rangeReplacements sch m) 0 ([], [])")
  define qs where "qs = sortQualifiers sch (map fst (rangeTempMap sch t))"
  define ps where "ps = sortPlaceholders sch (map fst (rangeFinalMap sch f))"
  have u: "twoPassReplace sch m c = replacePass f ps (replacePass t qs c)"
    unfolding qs_def ps_def by (rule twoPassReplace_unfold[OF tf])
  have qs: "set qs = fst ` set m"
    unfolding qs_def by (rule twoPassReplace_setup(1)[OF v d tf])
  have ld: "lenDesc qs"
    unfolding qs_def using v by (rule sched_sort)
  have ps: "set ps = placeholder ` {0 ..< int (length m)}"
    unfolding ps_def by (rule twoPassReplace_setup(2)[OF v d tf])
  have key: "\<exists>j p. plainAlias q \<and> plainPath p \<and> mapGet m q = p \<and>
      0 \<le> j \<and> j < int (length m) \<and> mapGet t q = placeholder j \<and> mapGet f (placeholder j) = p"
    if "q \<in> set qs" for q
  proof -
    from that qs obtain p where qp: "(q, p) \<in> set m" by auto
    with pm have pl: "plainAlias q" "plainPath p"
      by (auto simp: plainMap_def list_all_iff)
    from d qp have mq: "mapGet m q = p"
      by (simp add: mapGet_def)
    from twoPassReplace_setup(3)[OF v d tf qp] obtain j where j: "0 \<le> j" "j < int (length m)"
      "mapGet t q = placeholder j" "mapGet f (placeholder j) = p" by blast
    from pl mq j have "plainAlias q \<and> plainPath p \<and> mapGet m q = p \<and>
      0 \<le> j \<and> j < int (length m) \<and> mapGet t q = placeholder j \<and> mapGet f (placeholder j) = p"
      by simp
    then show ?thesis by (intro exI)
  qed
  have q1: "\<forall>q\<in>set qs. q \<noteq> [] \<and> CHR ''.'' \<notin> set q \<and> CHR ''.'' \<notin> set (mapGet t q)"
  proof
    fix q assume "q \<in> set qs"
    from key[OF this] obtain j where "plainAlias q" "mapGet t q = placeholder j" by blast
    then show "q \<noteq> [] \<and> CHR ''.'' \<notin> set q \<and> CHR ''.'' \<notin> set (mapGet t q)"
      by (simp add: plainAlias_def placeholder_no_dot)
  qed
  have q2: "\<forall>q\<in>set qs. q \<noteq> [] \<and> last q \<noteq> CHR ''_'' \<and>
      mapGet t q \<noteq> [] \<and> last (mapGet t q) = CHR ''_''"
  proof
    fix q assume "q \<in> set qs"
    from key[OF this] obtain j where "plainAlias q" "mapGet t q = placeholder j" by blast
    then show "q \<noteq> [] \<and> last q \<noteq> CHR ''_'' \<and>
      mapGet t q \<noteq> [] \<and> last (mapGet t q) = CHR ''_''"
      by (simp add: plainAlias_def placeholder_nonempty last_placeholder)
  qed
  have q3: "\<forall>q\<in>set qs. \<exists>i. mapGet t q = placeholder i \<and> plainPath (mapGet f (placeholder i))"
  proof
    fix q assume "q \<in> set qs"
    from key[OF this] obtain j p where "plainPath p" "mapGet t q = placeholder j"
      "mapGet f (placeholder j) = p" by blast
    then have "mapGet t q = placeholder j \<and> plainPath (mapGet f (placeholder j))" by simp
    then show "\<exists>i. mapGet t q = placeholder i \<and> plainPath (mapGet f (placeholder i))" ..
  qed
  have p1: "\<forall>p\<in>set ps. \<exists>j. p = placeholder j"
    using ps by auto
  have pass1: "replacePass t qs c = concat (map (pass2Item t f qs {}) segs) @ fin"
  proof -
    have "replacePass t qs c = replacePass t qs (concat (map (\<lambda>s. s @ ''.'') segs) @ fin)"
      using cc by simp
    also have "\<dots> = concat (map (\<lambda>s. s @ ''.'')
        (map (\<lambda>s. foldl (\<lambda>x q. if suffix q x then take (length x - length q) x @ mapGet t q else x)
               s qs) segs)) @ fin"
      by (rule replacePass_segments[OF q1 fin segs_dot])
    also have "\<dots> = concat (map (\<lambda>s. rewriteSegment t qs s @ ''.'') segs) @ fin"
      by (simp add: foldl_suffix_rewrite[OF q2] comp_def)
    also have "(\<lambda>s. rewriteSegment t qs s @ ''.'') = pass2Item t f qs {}"
      by (auto simp: rewriteSegment_def pass2Item_def split: option.splits)
    finally show ?thesis .
  qed
  have pass2: "replacePass f ps (concat (map (pass2Item t f qs {}) segs) @ fin) =
      concat (map (pass2Item t f qs ({} \<union> set ps)) segs) @ fin"
    using segs_dot segs_pp by (intro replacePass_items[OF _ fin q3 p1]) blast
  have item: "pass2Item t f qs ({} \<union> set ps) s = rewriteSegment m qs s @ ''.''" for s
  proof (cases "aliasAtEnd qs s")
    case None
    then show ?thesis by (simp add: pass2Item_def rewriteSegment_def)
  next
    case (Some q)
    from aliasAtEnd_Some[OF Some] have "q \<in> set qs" by simp
    from key[OF this] obtain j p where "mapGet m q = p" "mapGet f (placeholder j) = p"
      and j: "0 \<le> j" "j < int (length m)" and tq: "mapGet t q = placeholder j" by blast
    then have fm: "mapGet f (placeholder j) = mapGet m q" by simp
    from j ps have "placeholder j \<in> set ps" by simp
    with Some tq fm show ?thesis
      by (simp add: pass2Item_def rewriteSegment_def)
  qed
  have canon: "rewriteSegment m qs s = rewriteSegment m (sortByLenDesc (map fst m)) s" for s
    using ld lenDesc_sortByLenDesc[of "map fst m"] qs
    by (intro rewriteSegment_lenDesc) simp_all
  have item': "pass2Item t f qs ({} \<union> set ps) = (\<lambda>s. rewriteSegment m qs s @ ''.'')"
    by (rule ext) (rule item)
  have "twoPassReplace sch m c = concat (map (\<lambda>s. rewriteSegment m qs s @ ''.'') segs) @ fin"
    by (simp only: u pass1 pass2 item')
  then show ?thesis
    by (simp add: canonicalText_def sp canon)
qed

section \<open>Independence of the iteration order\<close>

lemma distinct_visitNode:
  "distinct (map fst m) \<Longrightarrow> distinct (map fst (visitNode ti m x))"
proof (cases "\<exists>k i sel. x = SelectorExpr (Ident k i) sel")
  case True
  assume d: "distinct (map fst m)"
  from True obtain k i sel where "x = SelectorExpr (Ident k i) sel" by blast
  with d show ?thesis
    by (auto simp: visitNode_selector_ident distinct_update split: option.splits object.splits)
next
  case False
  assume d: "distinct (map fst m)"
  from False have "visitNode ti m x = m"
    by (metis visitNode_other visitNode_selector_other)
  with d show ?thesis by simp
qed

lemma distinct_foldl_visitNode:
  "distinct (map fst m) \<Longrightarrow> distinct (map fst (foldl (visitNode ti) m xs))"
  by (induction xs arbitrary: m) (simp_all add: distinct_visitNode)

lemma distinct_collectReplacements: "distinct (map fst (collectReplacements n ti))"
  unfolding collectReplacements_def by (rule distinct_foldl_visitNode) simp

lemma canonicalText_empty: "canonicalText [] c = c"
proof -
  obtain segs fin where sp: "splitDots c = (segs, fin)" by (cases "splitDots c")
  have r: "rewriteSegment [] (sortByLenDesc []) s = s" for s
    by (simp add: rewriteSegment_def aliasAtEnd_def sortByLenDesc_def)
  have "canonicalText [] c = concat (map (\<lambda>s. s @ ''.'') segs) @ fin"
    by (simp add: canonicalText_def sp r)
  also have "\<dots> = c"
    by (rule splitDots_concat[OF sp, symmetric])
  finally show ?thesis .
qed

lemma applyQualifierReplacements_canonical:
  assumes "validScheduler sch" and "plainMap (collectReplacements n ti)"
    and "\<not> sublist placeholderPrefix c"
  shows "applyQualifierReplacements sch c n (Some ti) = canonicalText (collectReplacements n ti) c"
proof (cases "collectReplacements n ti = []")
  case True
  then show ?thesis
    by (simp add: applyQualifierReplacements_def canonicalText_empty)
next
  case False
  then have "n \<noteq> NilNode" by auto
  with False have "applyQualifierReplacements sch c n (Some ti) =
      twoPassReplace sch (collectReplacements n ti) c"
    by (simp add: applyQualifierReplacements_def Let_def)
  with twoPassReplace_canonical[OF assms(1) distinct_collectReplacements assms(2,3)]
  show ?thesis by simp
qed

text \<open>
  C10, as stated, fails: \<open>__\<close> is an identifier, and as an alias it ends every
  placeholder. When the first pass handles \<open>ab\<close> before \<open>__\<close> (both have length two, so
  the order is that of the map iteration), the placeholder put in for \<open>ab\<close> is rewritten
  again; in the other order it is not.
\<close>

theorem C10_order_changes_output:
  "validScheduler fifoScheduler \<and> validScheduler lifoScheduler
   \<and> applyQualifierReplacements fifoScheduler ''ab.X(__.Y)'' underscoreCall (Some underscoreInfo)
       = ''p/ab.X(p/u.Y)''
   \<and> applyQualifierReplacements lifoScheduler ''ab.X(__.Y)'' underscoreCall (Some underscoreInfo)
       = ''__GO_QUALIFIER_TEMP_1p/u.X(p/u.Y)''
   \<and> applyQualifierReplacements fifoScheduler ''ab.X(__.Y)'' underscoreCall (Some underscoreInfo)
       \<noteq> applyQualifierReplacements lifoScheduler ''ab.X(__.Y)'' underscoreCall (Some underscoreInfo)"
proof -
  have "applyQualifierReplacements fifoScheduler ''ab.X(__.Y)'' underscoreCall (Some underscoreInfo)
       = ''p/ab.X(p/u.Y)''"
    by code_simp
  moreover have "applyQualifierReplacements lifoScheduler ''ab.X(__.Y)'' underscoreCall
      (Some underscoreInfo) = ''__GO_QUALIFIER_TEMP_1p/u.X(p/u.Y)''"
    by code_simp
  ultimately show ?thesis
    using validScheduler_fifo validScheduler_lifo by simp
qed

text \<open>
  C10, amended. Two runs on the same chunk text, declaration subtree and resolved-symbol
  index give the same text, whatever the iteration orders of the maps and the tie-breaking
  of the sorts, provided that every collected alias is non-empty, has no dot and does not
  end in an underscore, that no canonical path has an underscore right before a dot or at
  its end, and that the chunk does not contain the placeholder prefix. The text is then the
  one in which every dot-terminated segment has the longest alias at its end replaced by
  the alias's canonical path.
\<close>

theorem C10_deterministic_for_plain_aliases:
  assumes "validScheduler sch" and "validScheduler sch'"
    and "plainMap (collectReplacements n ti)"
    and "\<not> sublist placeholderPrefix c"
  shows "applyQualifierReplacements sch c n (Some ti) = applyQualifierReplacements sch' c n (Some ti)
    \<and> applyQualifierReplacements sch c n (Some ti) = canonicalText (collectReplacements n ti) c
    \<and> applyQualifierReplacements sch c n None = applyQualifierReplacements sch' c n None"
  using applyQualifierReplacements_canonical[OF assms(1,3,4)]
    applyQualifierReplacements_canonical[OF assms(2,3,4)]
  by (simp add: applyQualifierReplacements_def)

theorem C10_deterministic_for_plain_aliases_witness:
  "validScheduler fifoScheduler \<and> validScheduler lifoScheduler
   \<and> plainMap (collectReplacements twoAliasBlock twoAliasInfo)
   \<and> \<not> sublist placeholderPrefix ''ab.Foo(); a.Bar()''
   \<and> applyQualifierReplacements fifoScheduler ''ab.Foo(); a.Bar()'' twoAliasBlock (Some twoAliasInfo) =
       applyQualifierReplacements lifoScheduler ''ab.Foo(); a.Bar()'' twoAliasBlock (Some twoAliasInfo)
   \<and> applyQualifierReplacements fifoScheduler ''ab.Foo(); a.Bar()'' twoAliasBlock (Some twoAliasInfo) =
       canonicalText (collectReplacements twoAliasBlock twoAliasInfo) ''ab.Foo(); a.Bar()''
   \<and> canonicalText (collectReplacements twoAliasBlock twoAliasInfo) ''ab.Foo(); a.Bar()'' =
       ''pkg/ab.Foo(); pkg/a.Bar()''"
proof -
  have pm: "plainMap (collectReplacements twoAliasBlock twoAliasInfo)"
    by code_simp
  have np: "\<not> sublist placeholderPrefix ''ab.Foo(); a.Bar()''"
    by code_simp
  have ct: "canonicalText (collectReplacements twoAliasBlock twoAliasInfo) ''ab.Foo(); a.Bar()'' =
       ''pkg/ab.Foo(); pkg/a.Bar()''"
    by code_simp
  from C10_deterministic_for_plain_aliases[OF validScheduler_fifo validScheduler_lifo pm np]
    validScheduler_fifo validScheduler_lifo pm np ct
  show ?thesis by blast
qed

section \<open>What is rewritten\<close>

text \<open>
  C3, as stated, fails: the alias \<open>http\<close> is found in the syntax tree, but the text is
  rewritten wherever \<open>http.\<close> occurs, also at the end of the longer identifier
  \<open>grpchttp\<close>, which denotes a variable and not an import.
\<close>

theorem C3_longer_identifier_rewritten:
  "Uses httpGetInfo 2 = Some OtherObject
   \<and> collectReplacements httpGetCall httpGetInfo = [(''http'', ''net/http'')]
   \<and> applyQualifierReplacements fifoScheduler ''http.Get(grpchttp.URL)'' httpGetCall (Some httpGetInfo)
       = ''net/http.Get(grpcnet/http.URL)''
   \<and> applyQualifierReplacements fifoScheduler ''http.Get(grpchttp.URL)'' httpGetCall (Some httpGetInfo)
       \<noteq> ''net/http.Get(grpchttp.URL)''"
  by code_simp

text \<open>
  C3, amended. The aliases rewritten are exactly the base identifiers of the selector
  expressions of the declaration that resolve to a package name whose import path differs
  from the identifier, each mapped to such a path; an identifier that resolves to anything
  else never enters the alias map. The rewriting itself is textual. A chunk in which no
  alias (and no placeholder) is followed by a dot is returned byte for byte. For aliases
  and paths that are plain, in a chunk without the placeholder prefix, the output is the
  canonical text: in every dot-terminated segment of the chunk, be it in code, in a string
  literal, in a comment or at the end of a longer identifier, the longest alias that ends
  the segment is replaced by its path, and nothing else changes.
\<close>

theorem C3_aliases_from_tree_rewrite_textual:
  assumes "validScheduler sch"
  shows "fst ` set (collectReplacements n ti) =
       {k. \<exists>i sel p. SelectorExpr (Ident k i) sel \<in> set (Inspect n) \<and>
              Uses ti i = Some (PkgName p) \<and> k \<noteq> p}
    \<and> (\<forall>(k, p) \<in> set (collectReplacements n ti).
          \<exists>i sel. SelectorExpr (Ident k i) sel \<in> set (Inspect n) \<and>
            Uses ti i = Some (PkgName p) \<and> k \<noteq> p)
    \<and> (\<not> mentionsAlias (collectReplacements n ti) c \<and>
         \<not> mentionsPlaceholder (length (collectReplacements n ti)) c \<longrightarrow>
           applyQualifierReplacements sch c n (Some ti) = c)
    \<and> (plainMap (collectReplacements n ti) \<and> \<not> sublist placeholderPrefix c \<longrightarrow>
           applyQualifierReplacements sch c n (Some ti) =
             canonicalText (collectReplacements n ti) c)"
  using collectReplacements_keys[of n ti] collectReplacements_entries[of _ _ n ti]
    applyQualifierReplacements_absent[OF assms, of n ti c]
    applyQualifierReplacements_canonical[OF assms, of n ti c]
  by (intro conjI) auto

lemma collect_hGet: "collectReplacements hGetCall hGetInfo = [(''h'', ''net/http'')]"
  by code_simp

theorem C3_aliases_from_tree_rewrite_textual_witness:
  "validScheduler fifoScheduler
   \<and> collectReplacements hGetCall hGetInfo = [(''h'', ''net/http'')]
   \<and> SelectorExpr (Ident ''h'' 1) ''Get'' \<in> set (Inspect hGetCall)
   \<and> Uses hGetInfo 1 = Some (PkgName ''net/http'')
   \<and> \<not> mentionsAlias (collectReplacements hGetCall hGetInfo) ''h .Get(u)''
   \<and> \<not> mentionsPlaceholder (length (collectReplacements hGetCall hGetInfo)) ''h .Get(u)''
   \<and> applyQualifierReplacements fifoScheduler ''h .Get(u)'' hGetCall (Some hGetInfo) = ''h .Get(u)''
   \<and> plainMap (collectReplacements httpGetCall httpGetInfo)
   \<and> \<not> sublist placeholderPrefix ''http.Get(grpchttp.URL)''
   \<and> applyQualifierReplacements fifoScheduler ''http.Get(grpchttp.URL)'' httpGetCall (Some httpGetInfo) =
       canonicalText (collectReplacements httpGetCall httpGetInfo) ''http.Get(grpchttp.URL)''
   \<and> canonicalText (collectReplacements httpGetCall httpGetInfo) ''http.Get(grpchttp.URL)'' =
       ''net/http.Get(grpcnet/http.URL)''"
proof -
  have a: "\<not> mentionsAlias (collectReplacements hGetCall hGetInfo) ''h .Get(u)''"
    by code_simp
  have p: "\<not> mentionsPlaceholder (length (collectReplacements hGetCall hGetInfo)) ''h .Get(u)''"
    by code_simp
  have s: "SelectorExpr (Ident ''h'' 1) ''Get'' \<in> set (Inspect hGetCall)"
    by code_simp
  have u: "Uses hGetInfo 1 = Some (PkgName ''net/http'')"
    by code_simp
  have pm: "plainMap (collectReplacements httpGetCall httpGetInfo)"
    by code_simp
  have np: "\<not> sublist placeholderPrefix ''http.Get(grpchttp.URL)''"
    by code_simp
  have ct: "canonicalText (collectReplacements httpGetCall httpGetInfo) ''http.Get(grpchttp.URL)'' =
       ''net/http.Get(grpcnet/http.URL)''"
    by code_simp
  from C3_aliases_from_tree_rewrite_textual[OF validScheduler_fifo, of hGetCall hGetInfo "''h .Get(u)''"]
  have 1: "applyQualifierReplacements fifoScheduler ''h .Get(u)'' hGetCall (Some hGetInfo) = ''h .Get(u)''"
    using a p by blast
  from C3_aliases_from_tree_rewrite_textual[OF validScheduler_fifo, of httpGetCall httpGetInfo
      "''http.Get(grpchttp.URL)''"]
  have 2: "applyQualifierReplacements fifoScheduler ''http.Get(grpchttp.URL)'' httpGetCall
      (Some httpGetInfo) =
       canonicalText (collectReplacements httpGetCall httpGetInfo) ''http.Get(grpchttp.URL)''"
    using pm np by blast
  from 1 2 a p s u pm np ct collect_hGet validScheduler_fifo show ?thesis by blast
qed

end
